theory Spec2Isabelle
  imports Complex_Main "HOL-Library.AList" "HOL-Library.Sublist"
begin

section \<open>Live media analysis pipeline: a shallow embedding\<close>

text \<open>
  The theory embeds the parts of the live modality-fusion pipeline that the
  specification makes claims about: chunk readiness (ChunkProcessor), stream-end
  detection (StreamMonitor), shot-change detection (ShotChangeDetector), the adaptive
  grid layout (AdaptiveFilmstripProcessor) and the incremental chapter merge with its
  context window (FusionAnalyzer).

  Conventions. Python floats (durations, timestamps, clock readings) are modelled as
  exact reals; Python ints as \<open>int\<close>, or \<open>nat\<close> where the value is a count or an
  index. Every exception of the source is a value of \<open>py_error\<close>; a \<open>try/except\<close> of
  the source is a case distinction on the result. Calls of external libraries and
  processes (ffprobe, OpenCV, json.loads, the clock) are inputs of the model.
\<close>

datatype py_error =
    ZeroDivisionError
  | TypeError
  | IndexError
  | KeyError
  | AttributeError
  | OSError

section \<open>ChunkProcessor: chunk readiness\<close>

text \<open>
  What \<open>_verify_chunk_ready\<close> observes of a chunk file: whether it exists
  (\<open>os.path.exists\<close>), its size in bytes (\<open>os.path.getsize\<close>, which can raise), and the
  outcome of the ffprobe call. \<open>subprocess.run\<close> either raises (time-out of 5 seconds,
  ffprobe missing) or returns an exit code and a standard output; the output either
  cannot be read as JSON with a numeric duration (\<open>json.loads\<close> or \<open>float\<close> raises), or
  it holds a duration, or it holds none and the source's default \<open>0\<close> is taken.
\<close>

datatype probe_stdout =
    Unparsable
  | Parsed "real option"

datatype probe_result =
    ProbeRaises
  | ProbeExit int probe_stdout

record chunk_file =
  file_exists :: bool
  file_size :: "nat option"
  probe :: probe_result

text \<open>The body of the \<open>try\<close> block of \<open>_verify_chunk_ready\<close>.\<close>

definition verify_chunk_body :: "real \<Rightarrow> chunk_file \<Rightarrow> bool \<Rightarrow> py_error + bool" where
  "verify_chunk_body chunk_duration f is_final =
     (case file_size f of
        None \<Rightarrow> Inl OSError
      | Some sz \<Rightarrow>
          if sz < 50000 then Inr False
          else (case probe f of
              ProbeRaises \<Rightarrow> Inl OSError
            | ProbeExit returncode out \<Rightarrow>
                if returncode \<noteq> 0 then Inr False
                else (case out of
                    Unparsable \<Rightarrow> Inl TypeError
                  | Parsed d \<Rightarrow>
                      (let duration = (case d of None \<Rightarrow> 0 | Some x \<Rightarrow> x) in
                       if is_final then
                         (if duration \<ge> 1 then Inr True else Inr False)
                       else
                         (let expected_duration = chunk_duration;
                              duration_diff = \<bar>duration - expected_duration\<bar>
                          in if duration_diff \<le> 1 then Inr True else Inr False)))))"

text \<open>
  \<open>_verify_chunk_ready\<close>: the existence test stands before the \<open>try\<close>; every exception
  of the body is caught and answered with \<open>False\<close>.
\<close>

definition verify_chunk_ready :: "real \<Rightarrow> chunk_file \<Rightarrow> bool \<Rightarrow> bool" where
  "verify_chunk_ready chunk_duration f is_final =
     (if \<not> file_exists f then False
      else (case verify_chunk_body chunk_duration f is_final of
              Inl e \<Rightarrow> False
            | Inr b \<Rightarrow> b))"

text \<open>The duration the probe reports, when the probe ran to a readable answer.\<close>

definition probed_duration :: "chunk_file \<Rightarrow> real option" where
  "probed_duration f =
     (case probe f of
        ProbeExit returncode (Parsed d) \<Rightarrow>
          (if returncode = 0 then Some (case d of None \<Rightarrow> 0 | Some x \<Rightarrow> x) else None)
      | _ \<Rightarrow> None)"

definition large_enough :: "chunk_file \<Rightarrow> bool" where
  "large_enough f = (case file_size f of None \<Rightarrow> False | Some sz \<Rightarrow> 50000 \<le> sz)"

section \<open>StreamMonitor: stream-end detection\<close>

text \<open>
  The monitor's own fields. The two collaborators are read through
  \<open>getattr(chunk_processor, 'chunk_count', 0)\<close> and
  \<open>hasattr(transcription_processor, 'is_running')\<close>: an observation carries the chunk
  count (absent: \<open>None\<close>), the transcription flag (absent: \<open>None\<close>) and the two clock
  readings that one call of \<open>stream_appears_ended\<close> takes.
\<close>

record stream_monitor =
  stream_timeout :: real
  last_activity_time :: real
  last_chunk_count :: int
  transcription_was_running :: bool

record observation =
  chunk_count :: "int option"
  is_running :: "bool option"
  clock1 :: real
  clock2 :: real

definition stream_monitor_init :: "real \<Rightarrow> real \<Rightarrow> stream_monitor" where
  "stream_monitor_init timeout now =
     \<lparr> stream_timeout = timeout, last_activity_time = now, last_chunk_count = 0,
       transcription_was_running = False \<rparr>"

definition default_stream_timeout :: real where
  "default_stream_timeout = 60"

definition update_activity :: "stream_monitor \<Rightarrow> int option \<Rightarrow> real \<Rightarrow> bool \<times> stream_monitor" where
  "update_activity m count current_time =
     (let current_chunk_count = (case count of None \<Rightarrow> 0 | Some c \<Rightarrow> c) in
      if current_chunk_count > last_chunk_count m then
        (True, m\<lparr> last_activity_time := current_time, last_chunk_count := current_chunk_count \<rparr>)
      else (False, m))"

definition stream_appears_ended :: "stream_monitor \<Rightarrow> observation \<Rightarrow> bool \<times> stream_monitor" where
  "stream_appears_ended m ob =
     (if transcription_was_running m \<and> is_running ob \<noteq> None \<and> is_running ob \<noteq> Some True
      then (True, m)
      else (let m' = snd (update_activity m (chunk_count ob) (clock1 ob));
                time_since_activity = clock2 ob - last_activity_time m'
            in (time_since_activity \<ge> stream_timeout m', m')))"

text \<open>
  A run of the monitor: it is built at time \<open>t0\<close> and \<open>stream_appears_ended\<close> is called
  once per observation, as the polling loop of \<open>ProcessingUtils\<close> does. The result is
  the list of answers.
\<close>

fun poll :: "stream_monitor \<Rightarrow> observation list \<Rightarrow> bool list" where
  "poll m [] = []"
| "poll m (ob # obs) =
     (let (ended, m') = stream_appears_ended m ob in ended # poll m' obs)"

section \<open>ShotChangeDetector\<close>

text \<open>
  Frames are values of a type \<open>'f\<close> and histograms of a type \<open>'h\<close>. The OpenCV and
  NumPy computations are inputs of the model: \<open>calc_hist\<close> is \<open>cv2.cvtColor\<close> to HSV
  followed by \<open>cv2.calcHist\<close> with the detector's bins, \<open>compare_hist\<close> is
  \<open>cv2.compareHist\<close> with \<open>HISTCMP_CORREL\<close>, and \<open>frame_mse\<close> is \<open>_calculate_mse\<close>
  (grey conversion, resize of the second frame, mean of the squared differences).
  The constructor refuses every method but \<open>'histogram'\<close> and \<open>'mse'\<close>; the field
  \<open>method\<close> of the source is \<open>detect_method\<close> here, and \<open>hist_bins\<close> is part of
  \<open>calc_hist\<close>.
\<close>

datatype detection_method = Histogram | MSE

record ('f, 'h) vision =
  calc_hist :: "'f \<Rightarrow> 'h"
  compare_hist :: "'h \<Rightarrow> 'h \<Rightarrow> real"
  frame_mse :: "'f \<Rightarrow> 'f \<Rightarrow> real"

record ('f, 'h) detector =
  detect_method :: detection_method
  threshold :: real
  enable_cross_chunk :: bool
  last_frame :: "'f option"
  previous_histogram :: "'h option"

definition new_detector :: "detection_method \<Rightarrow> real \<Rightarrow> bool \<Rightarrow> ('f, 'h) detector" where
  "new_detector m t cross =
     \<lparr> detect_method = m, threshold = t, enable_cross_chunk = cross,
       last_frame = None, previous_histogram = None \<rparr>"

definition compare_frames_histogram ::
  "('f, 'h) vision \<Rightarrow> ('f, 'h) detector \<Rightarrow> 'f \<Rightarrow> 'f \<Rightarrow> bool" where
  "compare_frames_histogram cv d frame1 frame2 =
     (let hist1 = calc_hist cv frame1;
          hist2 = calc_hist cv frame2;
          correlation = compare_hist cv hist1 hist2
      in correlation < threshold d)"

definition compare_frames_mse ::
  "('f, 'h) vision \<Rightarrow> ('f, 'h) detector \<Rightarrow> 'f \<Rightarrow> 'f \<Rightarrow> bool" where
  "compare_frames_mse cv d frame1 frame2 =
     (let mse = frame_mse cv frame1 frame2 in mse > threshold d)"

definition compare_frames ::
  "('f, 'h) vision \<Rightarrow> ('f, 'h) detector \<Rightarrow> 'f \<Rightarrow> 'f \<Rightarrow> bool" where
  "compare_frames cv d frame1 frame2 =
     (if detect_method d = Histogram then compare_frames_histogram cv d frame1 frame2
      else compare_frames_mse cv d frame1 frame2)"

definition detect_histogram_single ::
  "('f, 'h) vision \<Rightarrow> ('f, 'h) detector \<Rightarrow> 'f \<Rightarrow> bool \<times> ('f, 'h) detector" where
  "detect_histogram_single cv d frame =
     (let hist = calc_hist cv frame in
      case previous_histogram d of
        Some prev \<Rightarrow>
          (let correlation = compare_hist cv prev hist
           in (correlation < threshold d, d\<lparr> previous_histogram := Some hist \<rparr>))
      | None \<Rightarrow> (False, d\<lparr> previous_histogram := Some hist \<rparr>))"

definition detect_mse_single ::
  "('f, 'h) vision \<Rightarrow> ('f, 'h) detector \<Rightarrow> 'f \<Rightarrow> bool \<times> ('f, 'h) detector" where
  "detect_mse_single cv d frame =
     (case last_frame d of
        Some prev \<Rightarrow>
          (let mse = frame_mse cv prev frame
           in (mse > threshold d, d\<lparr> last_frame := Some frame \<rparr>))
      | None \<Rightarrow> (False, d\<lparr> last_frame := Some frame \<rparr>))"

text \<open>
  \<open>detect_single\<close> returns the flag and the elapsed detection time; the time is a clock
  difference and is left out. The frame number is not read by the source.
\<close>

definition detect_single ::
  "('f, 'h) vision \<Rightarrow> ('f, 'h) detector \<Rightarrow> 'f \<Rightarrow> bool \<times> ('f, 'h) detector" where
  "detect_single cv d frame =
     (case detect_method d of
        Histogram \<Rightarrow> detect_histogram_single cv d frame
      | MSE \<Rightarrow> detect_mse_single cv d frame)"

text \<open>The loop \<open>for i in range(1, len(frames))\<close> of \<open>detect_batch\<close>.\<close>

definition batch_step ::
  "('f, 'h) vision \<Rightarrow> ('f, 'h) detector \<Rightarrow> 'f list \<Rightarrow> nat \<Rightarrow> bool list \<Rightarrow> bool list" where
  "batch_step cv d frames i shot_changes =
     (let is_change = compare_frames cv d (frames ! (i - 1)) (frames ! i)
      in if is_change then shot_changes[i := True] else shot_changes)"

definition detect_batch ::
  "('f, 'h) vision \<Rightarrow> ('f, 'h) detector \<Rightarrow> 'f list \<Rightarrow> bool list \<times> ('f, 'h) detector" where
  "detect_batch cv d frames =
     (if frames = [] then ([], d)
      else
        (let shot_changes = replicate (length frames) False in
         if length frames < 2 then (shot_changes, d)
         else
           (let shot_changes1 =
                  (case last_frame d of
                     Some prev \<Rightarrow>
                       if enable_cross_chunk d \<and> compare_frames cv d prev (frames ! 0)
                       then shot_changes[0 := True] else shot_changes
                   | None \<Rightarrow> shot_changes);
                shot_changes2 =
                  fold (batch_step cv d frames) [1 ..< length frames] shot_changes1;
                d' = (if enable_cross_chunk d then d\<lparr> last_frame := Some (last frames) \<rparr> else d)
            in (shot_changes2, d'))))"

text \<open>Replaying a frame sequence through \<open>detect_single\<close>, one frame per call.\<close>

fun detect_each ::
  "('f, 'h) vision \<Rightarrow> ('f, 'h) detector \<Rightarrow> 'f list \<Rightarrow> bool list \<times> ('f, 'h) detector" where
  "detect_each cv d [] = ([], d)"
| "detect_each cv d (frame # frames) =
     (let (b, d1) = detect_single cv d frame;
          (bs, d2) = detect_each cv d1 frames
      in (b # bs, d2))"

text \<open>
  The expected flags of a frame sequence: every frame is compared with the frame
  before it; the first frame is compared with \<open>prev\<close>, the frame retained from
  earlier input, when there is one.
\<close>

fun adjacent_changes :: "('f \<Rightarrow> 'f \<Rightarrow> bool) \<Rightarrow> 'f option \<Rightarrow> 'f list \<Rightarrow> bool list" where
  "adjacent_changes cmp prev [] = []"
| "adjacent_changes cmp prev (f # fs) =
     (case prev of None \<Rightarrow> False | Some g \<Rightarrow> cmp g f) # adjacent_changes cmp (Some f) fs"

text \<open>
  A small instance for concrete runs: frames and histograms are numbers, two different
  frames have correlation 0 and mean squared error 100.
\<close>

definition toy_vision :: "(nat, nat) vision" where
  "toy_vision = \<lparr> calc_hist = (\<lambda>f. f), compare_hist = (\<lambda>a b. if a = b then 1 else 0),
     frame_mse = (\<lambda>a b. if a = b then 0 else 100) \<rparr>"

definition cross_chunk_detector :: "(nat, nat) detector" where
  "cross_chunk_detector =
     \<lparr> detect_method = MSE, threshold = 10, enable_cross_chunk = True,
       last_frame = Some 0, previous_histogram = None \<rparr>"

text \<open>
  A run of the stream monitor in which the transcription processor is seen running and
  then seen stopped, while chunks keep arriving.
\<close>

definition transcription_stopped_run :: "observation list" where
  "transcription_stopped_run =
     [\<lparr> chunk_count = Some 1, is_running = Some True, clock1 = 1, clock2 = 1 \<rparr>,
      \<lparr> chunk_count = Some 2, is_running = Some False, clock1 = 2, clock2 = 2 \<rparr>]"

section \<open>AdaptiveFilmstripProcessor: the grid layout\<close>

text \<open>
  The configuration fields that the layout computation reads. Float expressions of the
  source are evaluated in exact real arithmetic; \<open>int(x)\<close> on a float truncates towards
  zero; \<open>//\<close> on ints is floor division and raises on a zero divisor, as \<open>/\<close> does.
\<close>

record adaptive_processor =
  max_grid_width :: int
  max_grid_height :: int
  max_grid_images :: int
  border_thickness :: int
  label_height :: int
  preserve_source_resolution :: bool
  fixed_grid_layout :: "(int \<times> int) option"
  max_file_size_mb :: "real option"

record layout =
  total_frames :: int
  frames_per_grid :: int
  grid_rows :: int
  grid_cols :: int
  cell_size :: "int \<times> int"
  num_grids_needed :: int
  sampling_rate :: int
  frames_to_extract :: int
  extraction_interval :: real
  max_frames_capacity :: int

definition py_int :: "real \<Rightarrow> int" where
  "py_int x = (if 0 \<le> x then \<lfloor>x\<rfloor> else \<lceil>x\<rceil>)"

definition floordiv :: "int \<Rightarrow> int \<Rightarrow> py_error + int" where
  "floordiv a b = (if b = 0 then Inl ZeroDivisionError else Inr (a div b))"

definition truediv :: "real \<Rightarrow> real \<Rightarrow> py_error + real" where
  "truediv a b = (if b = 0 then Inl ZeroDivisionError else Inr (a / b))"

text \<open>The width and the height of a grid image of the given cells.\<close>

definition grid_total_width :: "adaptive_processor \<Rightarrow> int \<Rightarrow> int \<Rightarrow> int" where
  "grid_total_width p cols cell_width = cols * cell_width + (cols + 1) * border_thickness p"

definition grid_total_height :: "adaptive_processor \<Rightarrow> int \<Rightarrow> int \<Rightarrow> int" where
  "grid_total_height p rows cell_height =
     rows * (cell_height + label_height p) + (rows + 1) * border_thickness p"

text \<open>\<open>_estimate_file_size\<close> at its default quality 95, which takes 2.8 bits per pixel.\<close>

definition estimate_file_size :: "int \<Rightarrow> int \<Rightarrow> real" where
  "estimate_file_size grid_width grid_height =
     (let bits_per_pixel = 28 / 10;
          total_pixels = grid_width * grid_height
      in (real_of_int total_pixels * bits_per_pixel) / (8 * 1024 * 1024))"

text \<open>
  \<open>_apply_file_size_constraint\<close>. A negative ratio under the power \<open>0.5\<close> gives a
  complex number in Python, on which the later \<open>int\<close> raises \<open>TypeError\<close>.
\<close>

definition apply_file_size_constraint ::
  "adaptive_processor \<Rightarrow> real \<Rightarrow> int \<Rightarrow> int \<Rightarrow> int \<Rightarrow> int \<Rightarrow> real \<Rightarrow> py_error + (int \<times> int)" where
  "apply_file_size_constraint p max_mb cell_width cell_height rows cols aspect_ratio =
     (let total_width = grid_total_width p cols cell_width;
          total_height = grid_total_height p rows cell_height;
          current_size_mb = estimate_file_size total_width total_height
      in if current_size_mb \<le> max_mb then Inr (cell_width, cell_height)
         else (case truediv max_mb current_size_mb of
             Inl e \<Rightarrow> Inl e
           | Inr ratio \<Rightarrow>
               if ratio < 0 then Inl TypeError
               else
                 (let scale_factor = sqrt ratio;
                      new_cell_width = py_int (real_of_int cell_width * scale_factor);
                      new_cell_height = py_int (real_of_int cell_height * scale_factor);
                      min_cell_size = 100
                  in if new_cell_width < min_cell_size \<or> new_cell_height < min_cell_size
                     then Inr (py_int (real_of_int min_cell_size * aspect_ratio), min_cell_size)
                     else Inr (new_cell_width, new_cell_height))))"

definition constrain_cells ::
  "adaptive_processor \<Rightarrow> int \<Rightarrow> int \<Rightarrow> int \<Rightarrow> int \<Rightarrow> real \<Rightarrow> py_error + (int \<times> int \<times> int \<times> int)" where
  "constrain_cells p cell_width cell_height rows cols aspect_ratio =
     (case max_file_size_mb p of
        None \<Rightarrow> Inr (cell_width, cell_height, rows, cols)
      | Some max_mb \<Rightarrow>
          (case apply_file_size_constraint p max_mb cell_width cell_height rows cols aspect_ratio of
             Inl e \<Rightarrow> Inl e
           | Inr (w, h) \<Rightarrow> Inr (w, h, rows, cols)))"

text \<open>
  The adjustment of a cell to the aspect ratio:
  \<open>if cell_width / cell_height > aspect_ratio: cell_width = int(cell_height * aspect_ratio)\<close>,
  \<open>else: cell_height = int(cell_width / aspect_ratio)\<close>.
\<close>

definition adjust_aspect :: "real \<Rightarrow> int \<Rightarrow> int \<Rightarrow> py_error + (int \<times> int)" where
  "adjust_aspect aspect_ratio cell_width cell_height =
     (case truediv (real_of_int cell_width) (real_of_int cell_height) of
        Inl e \<Rightarrow> Inl e
      | Inr q \<Rightarrow>
          if q > aspect_ratio
          then Inr (py_int (real_of_int cell_height * aspect_ratio), cell_height)
          else (case truediv (real_of_int cell_width) aspect_ratio of
                  Inl e \<Rightarrow> Inl e
                | Inr h \<Rightarrow> Inr (cell_width, py_int h)))"

definition fallback_layout :: "int \<times> int \<times> int \<times> int" where
  "fallback_layout = (512, 512, 4, 5)"

definition layout_fits :: "adaptive_processor \<Rightarrow> int \<times> int \<times> int \<times> int \<Rightarrow> bool" where
  "layout_fits p g =
     (case g of (cell_width, cell_height, rows, cols) \<Rightarrow>
        grid_total_width p cols cell_width \<le> max_grid_width p \<and>
        grid_total_height p rows cell_height \<le> max_grid_height p)"

text \<open>
  One pass of the body of the search loops of \<open>_calculate_grid_dimensions\<close>, on the
  loop state \<open>(best_layout, max_frames)\<close>.
\<close>

definition try_grid ::
  "adaptive_processor \<Rightarrow> real \<Rightarrow> int \<times> int \<Rightarrow> (int \<times> int \<times> int \<times> int) option \<times> int \<Rightarrow>
   py_error + ((int \<times> int \<times> int \<times> int) option \<times> int)" where
  "try_grid p aspect_ratio rc st =
     (case rc of (rows, cols) \<Rightarrow>
      (let available_width = max_grid_width p - (cols + 1) * border_thickness p;
           available_height =
             max_grid_height p - (rows + 1) * border_thickness p - rows * label_height p;
           cell_width = available_width div cols;
           cell_height = available_height div rows
       in if cell_width < 100 \<or> cell_height < 100 then Inr st
          else (case adjust_aspect aspect_ratio cell_width cell_height of
              Inl e \<Rightarrow> Inl e
            | Inr (cw, ch) \<Rightarrow>
                if layout_fits p (cw, ch, rows, cols)
                then (let frames = rows * cols in
                      if frames > snd st then Inr (Some (cw, ch, rows, cols), frames)
                      else Inr st)
                else Inr st)))"

fun search_grids ::
  "adaptive_processor \<Rightarrow> real \<Rightarrow> (int \<times> int) list \<Rightarrow> (int \<times> int \<times> int \<times> int) option \<times> int \<Rightarrow>
   py_error + ((int \<times> int \<times> int \<times> int) option \<times> int)" where
  "search_grids p aspect_ratio [] st = Inr st"
| "search_grids p aspect_ratio (rc # rcs) st =
     (case try_grid p aspect_ratio rc st of
        Inl e \<Rightarrow> Inl e
      | Inr st' \<Rightarrow> search_grids p aspect_ratio rcs st')"

text \<open>\<open>for rows in range(1, 21): for cols in range(1, 21)\<close>, in the order of the loops.\<close>

definition grid_candidates :: "(int \<times> int) list" where
  "grid_candidates = concat (map (\<lambda>rows. map (\<lambda>cols. (rows, cols)) [1..20]) [1..20])"

definition calculate_grid_dimensions ::
  "adaptive_processor \<Rightarrow> real \<Rightarrow> int \<times> int \<Rightarrow> py_error + (int \<times> int \<times> int \<times> int)" where
  "calculate_grid_dimensions p aspect_ratio source_resolution =
     (case source_resolution of (source_width, source_height) \<Rightarrow>
      (case fixed_grid_layout p of
         Some (fixed_rows, fixed_cols) \<Rightarrow>
           (case
              (if preserve_source_resolution p then Inr (source_width, source_height)
               else
                 (let available_width =
                        max_grid_width p - (fixed_cols + 1) * border_thickness p;
                      available_height =
                        max_grid_height p - (fixed_rows + 1) * border_thickness p
                          - fixed_rows * label_height p
                  in case floordiv available_width fixed_cols of
                       Inl e \<Rightarrow> Inl e
                     | Inr cell_width \<Rightarrow>
                         (case floordiv available_height fixed_rows of
                            Inl e \<Rightarrow> Inl e
                          | Inr cell_height \<Rightarrow>
                              adjust_aspect aspect_ratio cell_width cell_height)))
            of
              Inl e \<Rightarrow> Inl e
            | Inr (cell_width, cell_height) \<Rightarrow>
                if \<not> layout_fits p (cell_width, cell_height, fixed_rows, fixed_cols)
                then Inr fallback_layout
                else constrain_cells p cell_width cell_height fixed_rows fixed_cols aspect_ratio)
       | None \<Rightarrow>
           if preserve_source_resolution p then
             (let cell_width = source_width;
                  cell_height = source_height
              in case floordiv (max_grid_width p - border_thickness p)
                        (cell_width + border_thickness p) of
                   Inl e \<Rightarrow> Inl e
                 | Inr max_cols \<Rightarrow>
                     (case floordiv (max_grid_height p - border_thickness p)
                             (cell_height + label_height p + border_thickness p) of
                        Inl e \<Rightarrow> Inl e
                      | Inr max_rows \<Rightarrow>
                          if max_cols < 1 \<or> max_rows < 1 then Inr fallback_layout
                          else constrain_cells p cell_width cell_height max_rows max_cols
                                 aspect_ratio))
           else
             (case search_grids p aspect_ratio grid_candidates (None, 0) of
                Inl e \<Rightarrow> Inl e
              | Inr (best_layout, max_frames) \<Rightarrow>
                  (case best_layout of
                     None \<Rightarrow> Inr fallback_layout
                   | Some (cell_width, cell_height, rows, cols) \<Rightarrow>
                       constrain_cells p cell_width cell_height rows cols aspect_ratio))))"

definition calculate_optimal_layout ::
  "adaptive_processor \<Rightarrow> real \<Rightarrow> real \<Rightarrow> int \<times> int \<Rightarrow> py_error + layout" where
  "calculate_optimal_layout p video_duration source_fps source_resolution =
     (case source_resolution of (source_width, source_height) \<Rightarrow>
      (let total = py_int (video_duration * source_fps) in
       case truediv (real_of_int source_width) (real_of_int source_height) of
         Inl e \<Rightarrow> Inl e
       | Inr aspect_ratio \<Rightarrow>
           (case calculate_grid_dimensions p aspect_ratio source_resolution of
              Inl e \<Rightarrow> Inl e
            | Inr (cell_width, cell_height, rows, cols) \<Rightarrow>
                (let per_grid = rows * cols;
                     max_total_frames = per_grid * max_grid_images p
                 in case
                      (if total \<le> max_total_frames then Inr (1, total)
                       else (case floordiv (total + max_total_frames - 1) max_total_frames of
                           Inl e \<Rightarrow> Inl e
                         | Inr rate \<Rightarrow>
                             (case floordiv (total + rate - 1) rate of
                                Inl e \<Rightarrow> Inl e
                              | Inr extract \<Rightarrow> Inr (rate, extract))))
                    of
                      Inl e \<Rightarrow> Inl e
                    | Inr (rate, extract) \<Rightarrow>
                        (case floordiv (extract + per_grid - 1) per_grid of
                           Inl e \<Rightarrow> Inl e
                         | Inr grids \<Rightarrow>
                             Inr \<lparr> total_frames = total,
                                   frames_per_grid = per_grid,
                                   grid_rows = rows,
                                   grid_cols = cols,
                                   cell_size = (cell_width, cell_height),
                                   num_grids_needed = grids,
                                   sampling_rate = rate,
                                   frames_to_extract = extract,
                                   extraction_interval =
                                     (if extract > 0 then video_duration / real_of_int extract
                                      else 1),
                                   max_frames_capacity = max_total_frames \<rparr>)))))"

text \<open>
  The constructor's defaults, with a maximal grid image of 1000 by 1000 pixels in
  place of the default 8000 by 8000 and the source resolution preserved.
\<close>

definition small_grid_processor :: adaptive_processor where
  "small_grid_processor =
     \<lparr> max_grid_width = 1000, max_grid_height = 1000, max_grid_images = 20,
       border_thickness = 8, label_height = 40, preserve_source_resolution = True,
       fixed_grid_layout = None, max_file_size_mb = None \<rparr>"

text \<open>The constructor's defaults.\<close>

definition default_processor :: adaptive_processor where
  "default_processor =
     \<lparr> max_grid_width = 8000, max_grid_height = 8000, max_grid_images = 20,
       border_thickness = 8, label_height = 40, preserve_source_resolution = False,
       fixed_grid_layout = None, max_file_size_mb = None \<rparr>"

text \<open>
  What the layout proofs maintain: the grid has at least one row and one column, and
  the layout is the fallback or fits the maximal grid image.
\<close>

definition good_layout :: "adaptive_processor \<Rightarrow> int \<times> int \<times> int \<times> int \<Rightarrow> bool" where
  "good_layout p g =
     (case g of (cw, ch, rows, cols) \<Rightarrow>
        1 \<le> rows \<and> 1 \<le> cols \<and> (g = fallback_layout \<or> layout_fits p g))"

definition good_best :: "adaptive_processor \<Rightarrow> (int \<times> int \<times> int \<times> int) option \<times> int \<Rightarrow> bool" where
  "good_best p st = (case fst st of None \<Rightarrow> True | Some g \<Rightarrow> good_layout p g)"

definition small_layout :: layout where
  "small_layout =
     \<lparr> total_frames = 10, frames_per_grid = 9, grid_rows = 3, grid_cols = 3,
       cell_size = (320, 240), num_grids_needed = 2, sampling_rate = 1,
       frames_to_extract = 10, extraction_interval = 1, max_frames_capacity = 180 \<rparr>"

section \<open>FusionAnalyzer: chapters, topics and the merge of a model response\<close>

text \<open>
  Chapters and topics are Python dicts. A key that the source tests for presence
  (\<open>'id' not in topic\<close>) or reads with a default (\<open>topic.get('start_time', 0)\<close>) is an
  \<open>entry\<close>: absent, or present with a value. A value that can be Python's \<open>None\<close> is an
  \<open>option\<close>. Identifiers are strings, times are numbers, chunk lists are lists of ints,
  as the response contract of the prompt has them.
\<close>

datatype 'a entry = NoKey | Key 'a

definition get_or :: "'a entry \<Rightarrow> 'a \<Rightarrow> 'a" where
  "get_or e d = (case e of NoKey \<Rightarrow> d | Key v \<Rightarrow> v)"

record topic_dict =
  topic_id :: "string option entry"
  topic_summary :: "string option entry"
  start_time :: "real option entry"
  end_time :: "real option entry"
  chunks :: "int list entry"

record chapter_dict =
  chapter_id :: "string option entry"
  chapter_title :: "string option entry"
  confidence :: real
  topics :: "topic_dict list entry"

text \<open>
  The fields are the dict keys \<open>'id'\<close>, \<open>'topic_summary'\<close>, \<open>'start_time'\<close>, \<open>'end_time'\<close>,
  \<open>'chunks'\<close> of a topic and \<open>'_id'\<close>, \<open>'chapter'\<close>, \<open>'confidence'\<close>, \<open>'topics'\<close> of a chapter.

  An action of a response, after the reads that the merge makes of it: for
  \<open>new_chapter\<close> and \<open>new_topic\<close> every field is read with \<open>action.get\<close>, so an absent
  key is \<open>None\<close> (or the stated default); for \<open>update_topic\<close> the patch fields are
  tested with \<open>in\<close>, so they are entries. An action of any other type is skipped.
\<close>

datatype action =
    NewChapter "string option" "string option" real
  | NewTopic "string option" "string option" "string option" "real option" "real option" "int list"
  | UpdateTopic "string option" "string option entry" "real option entry" "real option entry"
      "int list entry"
  | OtherAction

record analysis_result =
  chapters :: "chapter_dict list"
  result_chunk_id :: int
  time_range :: "real \<times> real"
  transcript :: string

text \<open>Decimal rendering of a natural number, Python's \<open>str\<close> on a non-negative int.\<close>

definition digit_char :: "nat \<Rightarrow> char" where
  "digit_char n = char_of (48 + n)"

fun str_nat :: "nat \<Rightarrow> string" where
  "str_nat n = (if n < 10 then [digit_char n] else str_nat (n div 10) @ [digit_char (n mod 10)])"

text \<open>
  The id-to-index dict \<open>topic_map\<close> is an association list with distinct keys; its
  length is \<open>len(topic_map)\<close>. The dict \<open>chapter_map\<close> of the source is written and never
  read, and is left out.
\<close>

type_synonym topic_map = "(string option \<times> (nat \<times> nat)) list"

text \<open>
  The first pass over the copied structure: every topic without an \<open>'id'\<close> gets
  \<open>t<len(topic_map) + 1>\<close>, and every topic is entered into \<open>topic_map\<close>.
\<close>

fun index_topics :: "nat \<Rightarrow> nat \<Rightarrow> topic_dict list \<Rightarrow> topic_map \<Rightarrow> topic_dict list \<times> topic_map" where
  "index_topics h_idx t_idx [] tm = ([], tm)"
| "index_topics h_idx t_idx (t # ts) tm =
     (let t' = (case topic_id t of
                  NoKey \<Rightarrow> t\<lparr> topic_id := Key (Some (''t'' @ str_nat (length tm + 1))) \<rparr>
                | Key v \<Rightarrow> t);
          tm' = AList.update (get_or (topic_id t') None) (h_idx, t_idx) tm;
          (ts', tm'') = index_topics h_idx (t_idx + 1) ts tm'
      in (t' # ts', tm''))"

fun index_chapters :: "nat \<Rightarrow> chapter_dict list \<Rightarrow> topic_map \<Rightarrow> chapter_dict list \<times> topic_map" where
  "index_chapters h_idx [] tm = ([], tm)"
| "index_chapters h_idx (h # hs) tm =
     (case topics h of
        NoKey \<Rightarrow>
          (let (hs', tm') = index_chapters (h_idx + 1) hs tm in (h # hs', tm'))
      | Key ts \<Rightarrow>
          (let (ts', tm') = index_topics h_idx 0 ts tm;
               (hs', tm'') = index_chapters (h_idx + 1) hs tm'
           in (h\<lparr> topics := Key ts' \<rparr> # hs', tm'')))"

text \<open>
  The search of \<open>new_topic\<close> for its chapter: chapters are visited in order, a chapter
  without \<open>'_id'\<close> gets \<open>h<i+1>\<close>, and the search stops at the first chapter whose
  \<open>'_id'\<close> equals the wanted one.
\<close>

fun find_chapter :: "nat \<Rightarrow> string option \<Rightarrow> chapter_dict list \<Rightarrow> chapter_dict list \<times> nat option" where
  "find_chapter i wanted [] = ([], None)"
| "find_chapter i wanted (h # hs) =
     (let h' = (case chapter_id h of
                  NoKey \<Rightarrow> h\<lparr> chapter_id := Key (Some (''h'' @ str_nat (i + 1))) \<rparr>
                | Key v \<Rightarrow> h)
      in if get_or (chapter_id h') None = wanted then (h' # hs, Some i)
         else (let (hs', r) = find_chapter (i + 1) wanted hs in (h' # hs', r)))"

definition patch_topic ::
  "topic_dict \<Rightarrow> string option entry \<Rightarrow> real option entry \<Rightarrow> real option entry \<Rightarrow> int list entry \<Rightarrow> topic_dict" where
  "patch_topic t summary start_t end_t cs =
     (let t1 = (case summary of NoKey \<Rightarrow> t | Key v \<Rightarrow> t\<lparr> topic_summary := Key v \<rparr>);
          t2 = (case start_t of NoKey \<Rightarrow> t1 | Key v \<Rightarrow> t1\<lparr> start_time := Key v \<rparr>);
          t3 = (case end_t of NoKey \<Rightarrow> t2 | Key v \<Rightarrow> t2\<lparr> end_time := Key v \<rparr>)
      in (case cs of NoKey \<Rightarrow> t3 | Key v \<Rightarrow> t3\<lparr> chunks := Key v \<rparr>))"

text \<open>
  One pass of the loop \<open>for action in actions\<close>, on the state \<open>(chapters, topic_map)\<close>.
  Indexing a list out of range raises \<open>IndexError\<close>, and \<open>chapters[i]['topics']\<close> on a
  chapter without that key raises \<open>KeyError\<close>.
\<close>

fun apply_action ::
  "chapter_dict list \<times> topic_map \<Rightarrow> action \<Rightarrow> py_error + (chapter_dict list \<times> topic_map)" where
  "apply_action (chs, tm) (NewChapter new_id title conf) =
     Inr (chs @ [\<lparr> chapter_id = Key new_id, chapter_title = Key title, confidence = conf,
                   topics = Key [] \<rparr>], tm)"
| "apply_action (chs, tm) (NewTopic new_id wanted summary start_t end_t cs) =
     (case find_chapter 0 wanted chs of
        (chs', None) \<Rightarrow> Inr (chs', tm)
      | (chs', Some chapter_idx) \<Rightarrow>
          (case topics (chs' ! chapter_idx) of
             NoKey \<Rightarrow> Inl KeyError
           | Key ts \<Rightarrow>
               (let new_topic = \<lparr> topic_id = Key new_id, topic_summary = Key summary,
                                  start_time = Key start_t, end_time = Key end_t,
                                  chunks = Key cs \<rparr>;
                    ts' = ts @ [new_topic]
                in Inr (chs'[chapter_idx := (chs' ! chapter_idx)\<lparr> topics := Key ts' \<rparr>],
                        AList.update new_id (chapter_idx, length ts' - 1) tm))))"
| "apply_action (chs, tm) (UpdateTopic tid summary start_t end_t cs) =
     (case map_of tm tid of
        None \<Rightarrow> Inr (chs, tm)
      | Some (h_idx, t_idx) \<Rightarrow>
          if \<not> h_idx < length chs then Inl IndexError
          else (case topics (chs ! h_idx) of
              NoKey \<Rightarrow> Inl KeyError
            | Key ts \<Rightarrow>
                if \<not> t_idx < length ts then Inl IndexError
                else Inr (chs[h_idx := (chs ! h_idx)
                            \<lparr> topics := Key (ts[t_idx := patch_topic (ts ! t_idx) summary start_t end_t cs]) \<rparr>],
                          tm)))"
| "apply_action (chs, tm) OtherAction = Inr (chs, tm)"

fun apply_actions ::
  "chapter_dict list \<times> topic_map \<Rightarrow> action list \<Rightarrow> py_error + (chapter_dict list \<times> topic_map)" where
  "apply_actions st [] = Inr st"
| "apply_actions st (a # as) =
     (case apply_action st a of
        Inl e \<Rightarrow> Inl e
      | Inr st' \<Rightarrow> apply_actions st' as)"

text \<open>
  \<open>analysis_results\<close> is a dict from chunk ids to results: an association list with
  distinct keys, in the order of insertion.

  \<open>_process_incremental_updates\<close>: the starting structure is a deep copy of the result
  of chunk \<open>chunk_id - 1\<close> when \<open>chunk_id > 0\<close> and that result is stored, and the empty
  chapter_dict list otherwise.
\<close>

definition previous_chapters :: "(int \<times> analysis_result) list \<Rightarrow> int \<Rightarrow> chapter_dict list" where
  "previous_chapters results chunk_id =
     (if chunk_id > 0 then
        (case map_of results (chunk_id - 1) of
           Some prev \<Rightarrow> chapters prev
         | None \<Rightarrow> [])
      else [])"

definition process_incremental_updates ::
  "(int \<times> analysis_result) list \<Rightarrow> action list \<Rightarrow> int \<Rightarrow> real \<Rightarrow> real \<Rightarrow> string \<Rightarrow>
   py_error + analysis_result" where
  "process_incremental_updates results actions chunk_id start_t end_t transcript_text =
     (let (chs, tm) = index_chapters 0 (previous_chapters results chunk_id) [] in
      case apply_actions (chs, tm) actions of
        Inl e \<Rightarrow> Inl e
      | Inr (chs', tm') \<Rightarrow>
          Inr \<lparr> chapters = chs', result_chunk_id = chunk_id, time_range = (start_t, end_t),
                transcript = transcript_text \<rparr>)"

section \<open>FusionAnalyzer: overlap detection\<close>

text \<open>
  The messages of \<open>log_component\<close> that the claims speak about. The four warning lines
  of one detected overlap are one entry: chunk id, chapter number, number of the first
  topic of the pair, its end time, the next topic's start time, and the overlap
  duration. Debug messages of other functions are not recorded.
\<close>

datatype log_entry =
    ParseFailed int
  | RawContent string
  | FusionError int py_error
  | OverlapDetected int nat nat real real real
  | TotalOverlaps int nat
  | NoOverlaps int

definition get_start :: "topic_dict \<Rightarrow> real option" where
  "get_start t = get_or (start_time t) (Some 0)"

definition get_end :: "topic_dict \<Rightarrow> real option" where
  "get_end t = get_or (end_time t) (Some 0)"

text \<open>
  \<open>sorted(topics, key=lambda t: t.get('start_time', 0))\<close> on two or more topics: the sort
  is stable, and comparing \<open>None\<close> with anything raises \<open>TypeError\<close>.
\<close>

definition sort_topics :: "topic_dict list \<Rightarrow> py_error + topic_dict list" where
  "sort_topics ts =
     (if list_ex (\<lambda>t. get_start t = None) ts then Inl TypeError
      else Inr (sort_key (\<lambda>t. the (get_start t)) ts))"

text \<open>
  The loop \<open>for i in range(len(topics_sorted) - 1)\<close>: the messages it has logged, and the
  exception that ended it, if any.
\<close>

fun scan_pairs :: "int \<Rightarrow> nat \<Rightarrow> nat \<Rightarrow> topic_dict list \<Rightarrow> log_entry list \<times> py_error option" where
  "scan_pairs chunk_id chapter_idx i (current_topic # next_topic # rest) =
     (case (get_end current_topic, get_start next_topic) of
        (Some current_end, Some next_start) \<Rightarrow>
          if current_end > next_start then
            (let overlap_duration = current_end - next_start;
                 (lg, err) = scan_pairs chunk_id chapter_idx (i + 1) (next_topic # rest)
             in (OverlapDetected chunk_id (chapter_idx + 1) (i + 1) current_end next_start
                   overlap_duration # lg, err))
          else scan_pairs chunk_id chapter_idx (i + 1) (next_topic # rest)
      | _ \<Rightarrow> ([], Some TypeError))"
| "scan_pairs chunk_id chapter_idx i ts = ([], None)"

fun detect_chapters :: "int \<Rightarrow> nat \<Rightarrow> chapter_dict list \<Rightarrow> log_entry list \<times> py_error option" where
  "detect_chapters chunk_id chapter_idx [] = ([], None)"
| "detect_chapters chunk_id chapter_idx (h # hs) =
     (let ts = get_or (topics h) [] in
      if length ts \<le> 1 then detect_chapters chunk_id (chapter_idx + 1) hs
      else (case sort_topics ts of
          Inl e \<Rightarrow> ([], Some e)
        | Inr topics_sorted \<Rightarrow>
            (case scan_pairs chunk_id chapter_idx 0 topics_sorted of
               (lg, Some e) \<Rightarrow> (lg, Some e)
             | (lg, None) \<Rightarrow>
                 (let (lg', err) = detect_chapters chunk_id (chapter_idx + 1) hs
                  in (lg @ lg', err)))))"

definition detect_overlapping_topics ::
  "analysis_result \<Rightarrow> int \<Rightarrow> log_entry list \<times> py_error option" where
  "detect_overlapping_topics ar chunk_id =
     (case detect_chapters chunk_id 0 (chapters ar) of
        (lg, Some e) \<Rightarrow> (lg, Some e)
      | (lg, None) \<Rightarrow>
          (let overlap_count = length lg in
           if overlap_count > 0 then (lg @ [TotalOverlaps chunk_id overlap_count], None)
           else (lg @ [NoOverlaps chunk_id], None)))"







section \<open>FusionAnalyzer: conversation history and its window\<close>

datatype msg_role = User | Assistant

datatype content_part = TextPart string | ImagePart

record message =
  role :: msg_role
  content :: "content_part list"

record analyzer =
  analysis_results :: "(int \<times> analysis_result) list"
  keep_n_chapters :: "nat option"
  messages :: "message list"
  finalized_chapters :: "chapter_dict list"
  all_chapters_for_display :: "chapter_dict list"
  logs :: "log_entry list"

text \<open>
  The format \<open>f"chunk_{chunk_id:04d}"\<close>: the decimal digits, padded with zeros to four
  characters, the sign of a negative number counting as one of them.
\<close>

definition zero_pad :: "nat \<Rightarrow> string \<Rightarrow> string" where
  "zero_pad w s = replicate (w - length s) (CHR ''0'') @ s"

definition fmt_04d :: "int \<Rightarrow> string" where
  "fmt_04d n =
     (if n < 0 then CHR ''-'' # zero_pad 3 (str_nat (nat (- n)))
      else zero_pad 4 (str_nat (nat n)))"

definition chunk_identifier :: "int \<Rightarrow> string" where
  "chunk_identifier chunk_id = ''chunk_'' @ fmt_04d chunk_id"

text \<open>
  \<open>next((c.get('text', '') for c in content if c.get('type') == 'text'), '')\<close>: the text
  of the first text part.
\<close>

fun text_content :: "content_part list \<Rightarrow> string" where
  "text_content [] = []"
| "text_content (TextPart s # cs) = s"
| "text_content (ImagePart # cs) = text_content cs"

definition keep_this_pair :: "int list \<Rightarrow> message \<Rightarrow> bool" where
  "keep_this_pair chunks_to_keep m =
     list_ex (\<lambda>chunk_id. sublist (chunk_identifier chunk_id) (text_content (content m)))
       chunks_to_keep"

text \<open>
  The loop \<open>while i < len(self.messages)\<close> of \<open>_cleanup_old_messages\<close>, on the messages
  from index \<open>i\<close> on; the result is what the loop appends to \<open>filtered_messages\<close>.
\<close>

fun filter_messages :: "int list \<Rightarrow> message list \<Rightarrow> message list" where
  "filter_messages chunks_to_keep [] = []"
| "filter_messages chunks_to_keep (m # rest) =
     (if role m = User then
        (if content m \<noteq> [] then
           (if keep_this_pair chunks_to_keep m then
              (case rest of
                 [] \<Rightarrow> [m]
               | a # rest' \<Rightarrow>
                   if role a = Assistant then m # a # filter_messages chunks_to_keep rest'
                   else m # filter_messages chunks_to_keep rest)
            else
              (case rest of
                 [] \<Rightarrow> []
               | a # rest' \<Rightarrow>
                   if role a = Assistant then filter_messages chunks_to_keep rest'
                   else filter_messages chunks_to_keep rest))
         else filter_messages chunks_to_keep rest)
      else filter_messages chunks_to_keep rest)"

text \<open>\<open>all_chapters[-(keep_n_chapters + 1):]\<close> and the chunk ids of its topics.\<close>

definition chapters_to_keep :: "nat \<Rightarrow> chapter_dict list \<Rightarrow> chapter_dict list" where
  "chapters_to_keep k all_chapters = drop (length all_chapters - (k + 1)) all_chapters"

definition chunks_of_chapters :: "chapter_dict list \<Rightarrow> int list" where
  "chunks_of_chapters chs =
     concat (map (\<lambda>h. concat (map (\<lambda>t. get_or (chunks t) []) (get_or (topics h) []))) chs)"

definition cleanup_old_messages :: "analyzer \<Rightarrow> chapter_dict list \<Rightarrow> analyzer" where
  "cleanup_old_messages st all_chapters =
     (case keep_n_chapters st of
        None \<Rightarrow> st
      | Some k \<Rightarrow>
          if length all_chapters \<le> k + 1 then st
          else (let chunks_to_keep = chunks_of_chapters (chapters_to_keep k all_chapters)
                in st\<lparr> messages := filter_messages chunks_to_keep (messages st) \<rparr>))"

text \<open>
  \<open>sorted(self.analysis_results.items(), key=lambda x: x[0])[-1][1]\<close>, for a dict that is
  not empty.
\<close>

definition latest_result :: "(int \<times> analysis_result) list \<Rightarrow> analysis_result" where
  "latest_result results = snd (last (sort_key fst results))"

text \<open>
  \<open>update_finalized_chapters\<close>. The table display and the clip extraction (a background
  thread that reads \<open>finalized_chapters\<close>) are outside the model.
\<close>

definition update_finalized_chapters :: "analyzer \<Rightarrow> analyzer" where
  "update_finalized_chapters st =
     (if analysis_results st = [] then st
      else
        (let all_chapters = chapters (latest_result (analysis_results st)) in
         if length all_chapters \<ge> 1 then
           (let st1 = st\<lparr> all_chapters_for_display := all_chapters \<rparr> in
            if length all_chapters > 1 then
              (let finalized = butlast all_chapters;
                   newly_finalized_count = int (length finalized) - int (length (finalized_chapters st1));
                   st2 = (if newly_finalized_count > 0 then st1\<lparr> finalized_chapters := finalized \<rparr>
                          else st1)
               in cleanup_old_messages st2 all_chapters)
            else st1)
         else st))"

text \<open>
  The history as a sequence of groups: a user message with the assistant message that
  follows it, a user message alone, or an assistant message without a user message
  before it.
\<close>

fun message_groups :: "message list \<Rightarrow> message list list" where
  "message_groups [] = []"
| "message_groups [m] = [[m]]"
| "message_groups (m # a # rest) =
     (if role m = User \<and> role a = Assistant then [m, a] # message_groups rest
      else [m] # message_groups (a # rest))"

definition kept_group :: "int list \<Rightarrow> message list \<Rightarrow> bool" where
  "kept_group chunks_to_keep g =
     (case g of
        [] \<Rightarrow> False
      | m # as \<Rightarrow> role m = User \<and> content m \<noteq> [] \<and> keep_this_pair chunks_to_keep m)"

section \<open>FusionAnalyzer: parsing and storing a model response\<close>

text \<open>
  \<open>re.search(r'```json\s*(.*?)\s*```', content, re.DOTALL)\<close> followed by
  \<open>group(1).strip()\<close>. The leftmost match starts at the first opening fence; the greedy
  \<open>\s*\<close> takes all white space after it; the lazy group ends at the first closing fence
  and the white space before it belongs to the second \<open>\s*\<close>. There is no match when no
  opening fence is followed by a closing fence. White space is the ASCII white space of
  Python's \<open>str.isspace\<close>.
\<close>

definition fence :: string where
  "fence = [CHR 0x60, CHR 0x60, CHR 0x60]"

definition is_space :: "char \<Rightarrow> bool" where
  "is_space c = (c \<in> set [CHR 0x09, CHR 0x0A, CHR 0x0B, CHR 0x0C, CHR 0x0D,
                           CHR 0x1C, CHR 0x1D, CHR 0x1E, CHR 0x1F, CHR 0x20])"

definition strip :: "string \<Rightarrow> string" where
  "strip s = rev (dropWhile is_space (rev (dropWhile is_space s)))"

text \<open>What follows the first occurrence of a pattern, and what stands before it.\<close>

fun text_after :: "string \<Rightarrow> string \<Rightarrow> string option" where
  "text_after pat [] = (if pat = [] then Some [] else None)"
| "text_after pat (c # cs) =
     (if prefix pat (c # cs) then Some (drop (length pat) (c # cs)) else text_after pat cs)"

fun text_before :: "string \<Rightarrow> string \<Rightarrow> string option" where
  "text_before pat [] = (if pat = [] then Some [] else None)"
| "text_before pat (c # cs) =
     (if prefix pat (c # cs) then Some []
      else (case text_before pat cs of None \<Rightarrow> None | Some b \<Rightarrow> Some (c # b)))"

definition extract_json_block :: "string \<Rightarrow> string option" where
  "extract_json_block content_text =
     (case text_after (fence @ ''json'') content_text of
        None \<Rightarrow> None
      | Some rest \<Rightarrow>
          (case text_before fence (dropWhile is_space rest) of
             None \<Rightarrow> None
           | Some body \<Rightarrow> Some (strip body)))"

text \<open>
  \<open>json.loads\<close> is an input of the model: it raises \<open>JSONDecodeError\<close> (\<open>None\<close>) or
  returns a value. A JSON object is represented by its list of actions,
  \<open>incremental_result.get('actions', [])\<close>; on any other JSON value the call of \<open>get\<close>
  raises \<open>AttributeError\<close>.
\<close>

datatype parsed_json = JsonObject "action list" | JsonOther

text \<open>
  \<open>_print_analysis_result\<close> formats every topic and raises on the first one it cannot
  format: the duration \<open>end_time - start_time\<close> needs two numbers, \<open>textwrap.fill\<close> needs
  a summary that is a string, and \<open>chunks[0]\<close> needs a chunk list that is not empty.
\<close>

definition print_topic :: "topic_dict \<Rightarrow> py_error option" where
  "print_topic t =
     (if get_end t = None \<or> get_start t = None then Some TypeError
      else if get_or (topic_summary t) (Some ''No summary'') = None then Some AttributeError
      else if get_or (chunks t) [] = [] then Some IndexError
      else None)"

fun first_error :: "('a \<Rightarrow> py_error option) \<Rightarrow> 'a list \<Rightarrow> py_error option" where
  "first_error f [] = None"
| "first_error f (x # xs) = (case f x of Some e \<Rightarrow> Some e | None \<Rightarrow> first_error f xs)"

definition print_analysis_result :: "analysis_result \<Rightarrow> py_error option" where
  "print_analysis_result ar =
     first_error (\<lambda>h. first_error print_topic (get_or (topics h) [])) (chapters ar)"

text \<open>
  The last part of \<open>_perform_fusion_analysis\<close>, from \<open># Parse and store analysis\<close> on:
  the inner \<open>try\<close> with its handler for \<open>JSONDecodeError\<close>, inside the outer \<open>try\<close>
  whose handler catches every other exception. \<open>content_text\<close> is the text of the
  model's response.
\<close>

definition parse_and_store ::
  "(string \<Rightarrow> parsed_json option) \<Rightarrow> analyzer \<Rightarrow> int \<Rightarrow> real \<Rightarrow> real \<Rightarrow> string \<Rightarrow> string \<Rightarrow>
   analyzer" where
  "parse_and_store loads st chunk_id start_t end_t transcript_text content_text =
     (case extract_json_block content_text of
        None \<Rightarrow>
          st\<lparr> logs := logs st @ [ParseFailed chunk_id, RawContent content_text] \<rparr>
      | Some inner \<Rightarrow>
          (case loads inner of
             None \<Rightarrow> st\<lparr> logs := logs st @ [ParseFailed chunk_id, RawContent inner] \<rparr>
           | Some JsonOther \<Rightarrow> st\<lparr> logs := logs st @ [FusionError chunk_id AttributeError] \<rparr>
           | Some (JsonObject actions) \<Rightarrow>
               (case process_incremental_updates (analysis_results st) actions chunk_id
                       start_t end_t transcript_text of
                  Inl e \<Rightarrow> st\<lparr> logs := logs st @ [FusionError chunk_id e] \<rparr>
                | Inr analysis_result \<Rightarrow>
                    (case detect_overlapping_topics analysis_result chunk_id of
                       (lg, Some e) \<Rightarrow> st\<lparr> logs := logs st @ lg @ [FusionError chunk_id e] \<rparr>
                     | (lg, None) \<Rightarrow>
                         (let st1 = st\<lparr> logs := logs st @ lg,
                                        analysis_results :=
                                          AList.update chunk_id analysis_result
                                            (analysis_results st) \<rparr>
                          in case print_analysis_result analysis_result of
                               Some e \<Rightarrow> st1\<lparr> logs := logs st1 @ [FusionError chunk_id e] \<rparr>
                             | None \<Rightarrow> update_finalized_chapters st1)))))"

section \<open>FusionAnalyzer: identifiers, expected overlaps and sample data\<close>

text \<open>
  The identifiers present in a structure: the values of the \<open>'_id'\<close> keys of its
  chapters and of the \<open>'id'\<close> keys of its topics. \<open>ids_kept old new\<close> says that the new
  structure has at least as many chapters and every identifier of the old one.
\<close>

definition entry_values :: "'a entry list \<Rightarrow> 'a list" where
  "entry_values es = concat (map (\<lambda>e. case e of NoKey \<Rightarrow> [] | Key v \<Rightarrow> [v]) es)"

definition all_topics :: "chapter_dict list \<Rightarrow> topic_dict list" where
  "all_topics chs = concat (map (\<lambda>h. get_or (topics h) []) chs)"

definition chapter_ids :: "chapter_dict list \<Rightarrow> string option list" where
  "chapter_ids chs = entry_values (map chapter_id chs)"

definition topic_ids :: "chapter_dict list \<Rightarrow> string option list" where
  "topic_ids chs = entry_values (map topic_id (all_topics chs))"

definition ids_kept :: "chapter_dict list \<Rightarrow> chapter_dict list \<Rightarrow> bool" where
  "ids_kept old new =
     (length old \<le> length new \<and>
      set (chapter_ids old) \<subseteq> set (chapter_ids new) \<and>
      set (topic_ids old) \<subseteq> set (topic_ids new))"


text \<open>
  What keeps the index pairs of \<open>topic_map\<close> in range: the shape of a structure is the
  number of topics of each chapter (\<open>None\<close> for a chapter without the key
  \<open>'topics'\<close>), and a map is valid when every pair points to an existing topic.
\<close>

definition shape :: "chapter_dict list \<Rightarrow> nat option list" where
  "shape chs = map (\<lambda>h. case topics h of NoKey \<Rightarrow> None | Key ts \<Rightarrow> Some (length ts)) chs"

definition valid_entry :: "nat option list \<Rightarrow> string option \<times> nat \<times> nat \<Rightarrow> bool" where
  "valid_entry sh e = (case e of (k, h, t) \<Rightarrow> h < length sh \<and> (\<exists>n. sh ! h = Some n \<and> t < n))"

definition valid_map :: "chapter_dict list \<Rightarrow> topic_map \<Rightarrow> bool" where
  "valid_map chs tm = (\<forall>e \<in> set tm. valid_entry (shape chs) e)"

definition has_topics :: "chapter_dict list \<Rightarrow> bool" where
  "has_topics chs = list_all (\<lambda>h. topics h \<noteq> NoKey) chs"

definition shape_le :: "nat option list \<Rightarrow> nat option list \<Rightarrow> bool" where
  "shape_le sh sh' =
     (length sh \<le> length sh' \<and>
      (\<forall>h < length sh. \<forall>n. sh ! h = Some n \<longrightarrow> (\<exists>n'. sh' ! h = Some n' \<and> n \<le> n')))"



text \<open>
  Sample data: three chapters with one topic each, the history of four chunks, an
  analyzer that has stored the results of chunks 2 and 3, two responses of the model
  as JSON texts with the action lists they denote, and a \<open>json.loads\<close> that reads
  exactly these two texts.
\<close>

definition topic_t1 :: topic_dict where
  "topic_t1 = \<lparr> topic_id = Key (Some ''t1''), topic_summary = Key (Some ''Opening''),
      start_time = Key (Some 0), end_time = Key (Some 40), chunks = Key [0, 1] \<rparr>"

definition topic_t2 :: topic_dict where
  "topic_t2 = \<lparr> topic_id = Key (Some ''t2''), topic_summary = Key (Some ''Demo''),
      start_time = Key (Some 40), end_time = Key (Some 60), chunks = Key [2] \<rparr>"

definition topic_t3 :: topic_dict where
  "topic_t3 = \<lparr> topic_id = Key (Some ''t3''), topic_summary = Key (Some ''Questions''),
      start_time = Key (Some 60), end_time = Key (Some 80), chunks = Key [3] \<rparr>"

definition chapter_h1 :: chapter_dict where
  "chapter_h1 = \<lparr> chapter_id = Key (Some ''h1''), chapter_title = Key (Some ''Intro''),
      confidence = 1, topics = Key [topic_t1] \<rparr>"

definition chapter_h2 :: chapter_dict where
  "chapter_h2 = \<lparr> chapter_id = Key (Some ''h2''), chapter_title = Key (Some ''Main''),
      confidence = 1, topics = Key [topic_t2] \<rparr>"

definition chapter_h3 :: chapter_dict where
  "chapter_h3 = \<lparr> chapter_id = Key (Some ''h3''), chapter_title = Key (Some ''End''),
      confidence = 1, topics = Key [topic_t3] \<rparr>"

definition result_two :: analysis_result where
  "result_two = \<lparr> chapters = [chapter_h1, chapter_h2], result_chunk_id = 2,
      time_range = (40, 60), transcript = ''words'' \<rparr>"

definition result_three :: analysis_result where
  "result_three = \<lparr> chapters = [chapter_h1, chapter_h2, chapter_h3], result_chunk_id = 3,
      time_range = (60, 80), transcript = ''words'' \<rparr>"

definition user_message :: "int \<Rightarrow> message" where
  "user_message c =
     \<lparr> role = User,
       content = [TextPart (''Chunk identifier: '' @ chunk_identifier c @ ''. Time range'')] \<rparr>"

definition assistant_message :: message where
  "assistant_message = \<lparr> role = Assistant, content = [TextPart ''actions''] \<rparr>"

definition history_four :: "message list" where
  "history_four =
     [user_message 0, assistant_message, user_message 1, assistant_message,
      user_message 2, assistant_message, user_message 3, assistant_message]"

definition analyzer_three :: analyzer where
  "analyzer_three =
     \<lparr> analysis_results = [(2, result_two), (3, result_three)], keep_n_chapters = Some 1,
       messages = history_four, finalized_chapters = [chapter_h1],
       all_chapters_for_display = [chapter_h1, chapter_h2], logs = [] \<rparr>"


definition response_json :: string where
  \<open>response_json =
     ''{"actions": [{"type": "new_chapter", "id": "h3", "chapter": "End", "confidence": 1}, '' @
     ''{"type": "new_topic", "id": "t3", "chapter_id": "h3", "topic_summary": "Questions", '' @
     ''"start_time": 60, "end_time": 80, "chunks": [3]}, '' @
     ''{"type": "update_topic", "id": "t9", "topic_summary": "Lost", "end_time": 90}]}''\<close>

definition response_actions :: "action list" where
  "response_actions =
     [NewChapter (Some ''h3'') (Some ''End'') 1,
      NewTopic (Some ''t3'') (Some ''h3'') (Some ''Questions'') (Some 60) (Some 80) [3],
      UpdateTopic (Some ''t9'') (Key (Some ''Lost'')) NoKey (Key (Some 90)) NoKey]"

definition overlap_json :: string where
  \<open>overlap_json =
     ''{"actions": [{"type": "new_topic", "id": "t4", "chapter_id": "h2", '' @
     ''"topic_summary": "Aside", "start_time": 50, "end_time": 70, "chunks": [3]}]}''\<close>

definition overlap_actions :: "action list" where
  "overlap_actions =
     [NewTopic (Some ''t4'') (Some ''h2'') (Some ''Aside'') (Some 50) (Some 70) [3]]"



definition example_loads :: "string \<Rightarrow> parsed_json option" where
  "example_loads s =
     (if s = response_json then Some (JsonObject response_actions)
      else if s = overlap_json then Some (JsonObject overlap_actions)
      else None)"

definition fenced :: "string \<Rightarrow> string" where
  "fenced s = ''Here is the update: '' @ fence @ ''json'' @ [CHR 0x0A] @ s @ [CHR 0x0A] @ fence"

definition analyzer_two :: analyzer where
  "analyzer_two =
     \<lparr> analysis_results = [(2, result_two)], keep_n_chapters = Some 1,
       messages = history_four, finalized_chapters = [chapter_h1],
       all_chapters_for_display = [chapter_h1, chapter_h2], logs = [] \<rparr>"


text \<open>
  Two responses that leave out a field of \<open>new_topic\<close>, the first \<open>start_time\<close> and the
  second \<open>chunks\<close>, with the results of merging them into the stored result of chunk
  2 and a \<open>json.loads\<close> that reads these two texts.
\<close>

definition untimed_json :: string where
  \<open>untimed_json =
     ''{"actions": [{"type": "new_topic", "id": "t4", "chapter_id": "h2", '' @
     ''"topic_summary": "Aside", "end_time": 70, "chunks": [3]}]}''\<close>

definition untimed_actions :: "action list" where
  "untimed_actions =
     [NewTopic (Some ''t4'') (Some ''h2'') (Some ''Aside'') None (Some 70) [3]]"


definition no_chunks_json :: string where
  \<open>no_chunks_json =
     ''{"actions": [{"type": "new_chapter", "id": "h3", "chapter": "End", "confidence": 1}, '' @
     ''{"type": "new_topic", "id": "t3", "chapter_id": "h3", "topic_summary": "Questions", '' @
     ''"start_time": 60, "end_time": 80}]}''\<close>

definition no_chunks_actions :: "action list" where
  "no_chunks_actions =
     [NewChapter (Some ''h3'') (Some ''End'') 1,
      NewTopic (Some ''t3'') (Some ''h3'') (Some ''Questions'') (Some 60) (Some 80) []]"

definition no_chunks_result :: analysis_result where
  "no_chunks_result =
     \<lparr> chapters = [chapter_h1, chapter_h2,
         chapter_h3\<lparr> topics := Key [topic_t3\<lparr> chunks := Key [] \<rparr>] \<rparr>],
       result_chunk_id = 3, time_range = (60, 80), transcript = ''words'' \<rparr>"

definition malformed_loads :: "string \<Rightarrow> parsed_json option" where
  "malformed_loads s =
     (if s = untimed_json then Some (JsonObject untimed_actions)
      else if s = no_chunks_json then Some (JsonObject no_chunks_actions)
      else None)"

text \<open>
  An analyzer with \<open>keep_n_chapters = 0\<close> whose latest result has two chapters: the
  topic of the first lists chunk 10000 and the topic of the last lists chunk 1000. The
  history holds the message pairs of the two chunks.
\<close>

definition chapter_early :: chapter_dict where
  "chapter_early = \<lparr> chapter_id = Key (Some ''h1''), chapter_title = Key (Some ''Early''),
      confidence = 1,
      topics = Key [\<lparr> topic_id = Key (Some ''t1''), topic_summary = Key (Some ''Early''),
        start_time = Key (Some 0), end_time = Key (Some 20), chunks = Key [10000] \<rparr>] \<rparr>"

definition chapter_late :: chapter_dict where
  "chapter_late = \<lparr> chapter_id = Key (Some ''h2''), chapter_title = Key (Some ''Late''),
      confidence = 1,
      topics = Key [\<lparr> topic_id = Key (Some ''t2''), topic_summary = Key (Some ''Late''),
        start_time = Key (Some 20), end_time = Key (Some 40), chunks = Key [1000] \<rparr>] \<rparr>"

definition analyzer_collision :: analyzer where
  "analyzer_collision =
     \<lparr> analysis_results =
         [(10000, \<lparr> chapters = [chapter_early, chapter_late], result_chunk_id = 10000,
                     time_range = (20, 40), transcript = ''words'' \<rparr>)],
       keep_n_chapters = Some 0,
       messages = [user_message 10000, assistant_message, user_message 1000, assistant_message],
       finalized_chapters = [], all_chapters_for_display = [], logs = [] \<rparr>"

section \<open>Chunk readiness: results\<close>

text \<open>
  C10 (amended). A chunk file is reported ready exactly when it exists, holds at least
  50000 bytes, the probe exits with code 0 and its duration is within 1 second of the
  expected chunk duration (for a final chunk: is at least 1 second). A probe that raises,
  exits with another code or prints what cannot be read makes the answer \<open>False\<close>; the
  function returns a boolean on every input.
\<close>

theorem verify_chunk_ready_iff:
  "verify_chunk_ready expected f is_final =
     (file_exists f \<and> large_enough f \<and>
      (case probed_duration f of
         None \<Rightarrow> False
       | Some d \<Rightarrow> if is_final then 1 \<le> d else \<bar>d - expected\<bar> \<le> 1))"
  by (auto simp: verify_chunk_ready_def verify_chunk_body_def probed_duration_def
      large_enough_def Let_def
      split: option.splits probe_result.splits probe_stdout.splits)

text \<open>
  The claim as written fails: a 20-second chunk of 40000 bytes has a probed duration
  within the tolerance and is still not ready.
\<close>

theorem verify_chunk_ready_small_file:
  "\<not> verify_chunk_ready 20
      \<lparr> file_exists = True, file_size = Some 40000, probe = ProbeExit 0 (Parsed (Some 20)) \<rparr>
      False
   \<and> probed_duration
      \<lparr> file_exists = True, file_size = Some 40000, probe = ProbeExit 0 (Parsed (Some 20)) \<rparr>
      = Some 20"
  by (simp add: verify_chunk_ready_def verify_chunk_body_def probed_duration_def)

text \<open>
  The tolerance at the values of the specification: with an expected duration of 20
  seconds, a probed 19.4 seconds is accepted and a probed 18.5 seconds is rejected.
\<close>

theorem verify_chunk_ready_tolerance:
  "verify_chunk_ready 20
      \<lparr> file_exists = True, file_size = Some 60000, probe = ProbeExit 0 (Parsed (Some (194 / 10))) \<rparr>
      False
   \<and> \<not> verify_chunk_ready 20
      \<lparr> file_exists = True, file_size = Some 60000, probe = ProbeExit 0 (Parsed (Some (185 / 10))) \<rparr>
      False"
  by (simp add: verify_chunk_ready_iff large_enough_def probed_duration_def)

section \<open>Stream-end detection: results\<close>

text \<open>
  C6. The claim says that the stream is declared ended as soon as the transcription
  processor, having been running, is no longer running. The monitor is built with
  \<open>transcription_was_running = False\<close> and no function of the class sets the field, so in a run
  where transcription is seen running and then stopped while chunks arrive, both
  calls answer \<open>False\<close>.
\<close>

theorem stream_end_misses_transcription_stop:
  "poll (stream_monitor_init default_stream_timeout 0) transcription_stopped_run = [False, False]"
  by (simp add: stream_monitor_init_def default_stream_timeout_def transcription_stopped_run_def
      stream_appears_ended_def update_activity_def Let_def)

section \<open>Shot-change detection: results\<close>

lemma batch_step_length: "length (batch_step cv d frames i sc) = length sc"
  by (simp add: batch_step_def Let_def)

lemma batch_step_nth:
  "j < length sc \<Longrightarrow>
   batch_step cv d frames i sc ! j =
     (if j = i then (compare_frames cv d (frames ! (i - 1)) (frames ! i) \<or> sc ! j) else sc ! j)"
  by (simp add: batch_step_def Let_def nth_list_update)

lemma batch_fold_length:
  "length (fold (batch_step cv d frames) [a ..< n] sc) = length sc"
  by (induction n) (simp_all add: batch_step_length)

lemma batch_fold_nth:
  "j < length sc \<Longrightarrow>
   fold (batch_step cv d frames) [a ..< n] sc ! j =
     (if a \<le> j \<and> j < n then (compare_frames cv d (frames ! (j - 1)) (frames ! j) \<or> sc ! j)
      else sc ! j)"
proof (induction n)
  case 0
  then show ?case by simp
next
  case (Suc n)
  show ?case
  proof (cases "a \<le> n")
    case True
    then show ?thesis
      using Suc by (auto simp: batch_step_nth batch_fold_length less_Suc_eq)
  next
    case False
    then show ?thesis using Suc by auto
  qed
qed

lemma adjacent_changes_length: "length (adjacent_changes cmp p fs) = length fs"
  by (induction fs arbitrary: p) auto

lemma adjacent_changes_nth:
  "j < length fs \<Longrightarrow>
   adjacent_changes cmp p fs ! j =
     (if j = 0 then (case p of None \<Rightarrow> False | Some g \<Rightarrow> cmp g (fs ! 0))
      else cmp (fs ! (j - 1)) (fs ! j))"
proof (induction fs arbitrary: p j)
  case Nil
  then show ?case by simp
next
  case (Cons f fs)
  then show ?case by (cases j) (auto split: option.splits)
qed

lemma detect_each_histogram:
  "detect_method d = Histogram \<Longrightarrow> previous_histogram d = map_option (calc_hist cv) p \<Longrightarrow>
   fst (detect_each cv d fs) = adjacent_changes (compare_frames cv d) p fs"
proof (induction fs arbitrary: d p)
  case Nil
  then show ?case by simp
next
  case (Cons f fs)
  obtain b d1 where s: "detect_single cv d f = (b, d1)" by force
  have d1: "detect_method d1 = Histogram" "previous_histogram d1 = map_option (calc_hist cv) (Some f)"
    "threshold d1 = threshold d"
    using s Cons.prems
    by (auto simp: detect_single_def detect_histogram_single_def Let_def split: option.splits)
  have b: "b = (case p of None \<Rightarrow> False | Some g \<Rightarrow> compare_frames cv d g f)"
    using s Cons.prems
    by (auto simp: detect_single_def detect_histogram_single_def Let_def compare_frames_def
        compare_frames_histogram_def split: option.splits)
  have cmp: "compare_frames cv d1 = compare_frames cv d"
    using d1 Cons.prems by (auto simp: compare_frames_def compare_frames_histogram_def fun_eq_iff)
  show ?case
    using Cons.IH[OF d1(1) d1(2)] s b cmp by (simp add: split_beta)
qed

lemma detect_each_mse:
  "detect_method d = MSE \<Longrightarrow> last_frame d = p \<Longrightarrow>
   fst (detect_each cv d fs) = adjacent_changes (compare_frames cv d) p fs"
proof (induction fs arbitrary: d p)
  case Nil
  then show ?case by simp
next
  case (Cons f fs)
  obtain b d1 where s: "detect_single cv d f = (b, d1)" by force
  have d1: "detect_method d1 = MSE" "last_frame d1 = Some f" "threshold d1 = threshold d"
    using s Cons.prems
    by (auto simp: detect_single_def detect_mse_single_def Let_def split: option.splits)
  have b: "b = (case p of None \<Rightarrow> False | Some g \<Rightarrow> compare_frames cv d g f)"
    using s Cons.prems
    by (auto simp: detect_single_def detect_mse_single_def Let_def compare_frames_def
        compare_frames_mse_def split: option.splits)
  have cmp: "compare_frames cv d1 = compare_frames cv d"
    using d1 Cons.prems by (auto simp: compare_frames_def compare_frames_mse_def fun_eq_iff)
  show ?case
    using Cons.IH[OF d1(1) d1(2)] s b cmp by (simp add: split_beta)
qed

lemma detect_batch_fresh:
  "last_frame d = None \<Longrightarrow>
   fst (detect_batch cv d fs) = adjacent_changes (compare_frames cv d) None fs"
proof (rule nth_equalityI)
  assume "last_frame d = None"
  show len: "length (fst (detect_batch cv d fs)) = length (adjacent_changes (compare_frames cv d) None fs)"
    by (auto simp: detect_batch_def Let_def batch_fold_length adjacent_changes_length split: option.splits)
  fix j assume "j < length (fst (detect_batch cv d fs))"
  then have j: "j < length fs" using len by (simp add: adjacent_changes_length)
  show "fst (detect_batch cv d fs) ! j = adjacent_changes (compare_frames cv d) None fs ! j"
  proof (cases "length fs < 2")
    case True
    then have "j = 0" using j by simp
    then show ?thesis using True j
      by (auto simp: detect_batch_def Let_def adjacent_changes_nth)
  next
    case False
    then show ?thesis using j \<open>last_frame d = None\<close>
      by (auto simp: detect_batch_def Let_def adjacent_changes_nth batch_fold_nth)
  qed
qed

text \<open>
  C8. Replaying a frame sequence through \<open>detect_single\<close> on a fresh detector gives the
  same flags as one \<open>detect_batch\<close> call on a fresh detector of the same method and
  threshold, whatever the cross-chunk setting of either: a fresh detector retains no
  frame, so index 0 is \<open>False\<close> on both sides.
\<close>

theorem batch_single_equivalence:
  "fst (detect_each cv (new_detector m t c) frames) =
   fst (detect_batch cv (new_detector m t c') frames)"
proof -
  let ?d = "new_detector m t c :: ('a, 'b) detector"
  let ?d' = "new_detector m t c' :: ('a, 'b) detector"
  have cmp: "compare_frames cv ?d = compare_frames cv ?d'"
    by (auto simp: compare_frames_def compare_frames_histogram_def compare_frames_mse_def
        new_detector_def fun_eq_iff)
  have "fst (detect_each cv ?d frames) = adjacent_changes (compare_frames cv ?d) None frames"
  proof (cases m)
    case Histogram
    then show ?thesis
      using detect_each_histogram[of ?d cv None frames] by (simp add: new_detector_def)
  next
    case MSE
    then show ?thesis
      using detect_each_mse[of ?d None cv frames] by (simp add: new_detector_def)
  qed
  moreover have "fst (detect_batch cv ?d' frames) = adjacent_changes (compare_frames cv ?d') None frames"
    by (rule detect_batch_fresh) (simp add: new_detector_def)
  ultimately show ?thesis using cmp by simp
qed

text \<open>
  C7. \<open>detect_batch\<close> returns the empty list on an empty batch and a one-element list
  on a batch of one frame. That list is \<open>[False]\<close> in every mode, so it is all-false
  also where cross-chunk mode would allow position 0 to be true; the detector is left
  as it was.
\<close>

theorem detect_batch_short:
  "detect_batch cv d [] = ([], d) \<and> detect_batch cv d [f] = ([False], d)"
  by (simp add: detect_batch_def)

text \<open>
  An instance: in cross-chunk mode, with a retained frame that compares as a shot change
  against the single frame of the batch, position 0 is \<open>False\<close>; the comparison with
  the retained frame is made for batches of two or more frames only.
\<close>

lemma detect_batch_single_frame_cross_chunk:
  "enable_cross_chunk cross_chunk_detector
   \<and> last_frame cross_chunk_detector = Some 0
   \<and> compare_frames toy_vision cross_chunk_detector 0 1
   \<and> fst (detect_batch toy_vision cross_chunk_detector [1]) = [False]"
  by (simp add: detect_batch_def cross_chunk_detector_def toy_vision_def compare_frames_def
      compare_frames_mse_def)

section \<open>Adaptive layout: results\<close>

lemma try_grid_good:
  assumes "try_grid p ar (rows, cols) st = Inr st'" "good_best p st" "1 \<le> rows" "1 \<le> cols"
  shows "good_best p st'"
  using assms
  by (auto simp: try_grid_def Let_def good_best_def good_layout_def
      split: if_splits sum.splits prod.splits)

lemma search_grids_good:
  assumes "search_grids p ar rcs st = Inr st'" "good_best p st"
    "\<forall>rc \<in> set rcs. 1 \<le> fst rc \<and> 1 \<le> snd rc"
  shows "good_best p st'"
  using assms
proof (induction rcs arbitrary: st)
  case Nil
  then show ?case by simp
next
  case (Cons rc rcs)
  obtain rows cols where rc: "rc = (rows, cols)" by (cases rc)
  from Cons.prems(1) obtain st1 where
    t: "try_grid p ar rc st = Inr st1" and s: "search_grids p ar rcs st1 = Inr st'"
    by (auto split: sum.splits)
  have "good_best p st1"
    using try_grid_good[of p ar rows cols st st1] t rc Cons.prems by auto
  then show ?case using Cons.IH[OF s] Cons.prems(3) by simp
qed

lemma grid_candidates_positive: "\<forall>rc \<in> set grid_candidates. 1 \<le> fst rc \<and> 1 \<le> snd rc"
  by (auto simp: grid_candidates_def)

lemma constrain_cells_unlimited:
  "max_file_size_mb p = None \<Longrightarrow>
   constrain_cells p cw ch rows cols ar = Inr (cw, ch, rows, cols)"
  by (simp add: constrain_cells_def)

lemma preserve_fits:
  fixes w b cw cols :: int
  assumes "0 < cw + b" "cols = (w - b) div (cw + b)"
  shows "cols * cw + (cols + 1) * b \<le> w"
proof -
  have "cols * (cw + b) = (w - b) - (w - b) mod (cw + b)"
    using assms(2) by (simp add: minus_mod_eq_div_mult)
  moreover have "0 \<le> (w - b) mod (cw + b)"
    using assms(1) by simp
  ultimately have "cols * (cw + b) \<le> w - b" by linarith
  then show ?thesis by (simp add: algebra_simps)
qed

lemma calculate_grid_dimensions_good:
  assumes r: "calculate_grid_dimensions p ar (sw, sh) = Inr g"
    and nolimit: "max_file_size_mb p = None"
    and fixed: "case fixed_grid_layout p of None \<Rightarrow> True | Some (r, c) \<Rightarrow> 1 \<le> r \<and> 1 \<le> c"
    and src: "0 < sw" "0 < sh"
    and pad: "0 \<le> border_thickness p" "0 \<le> label_height p"
  shows "good_layout p g"
proof (cases "fixed_grid_layout p")
  case (Some fl)
  obtain fr fc where fl: "fl = (fr, fc)" by (cases fl)
  show ?thesis
    using r fixed Some fl nolimit
    by (auto simp: calculate_grid_dimensions_def good_layout_def constrain_cells_unlimited
        fallback_layout_def Let_def split: if_splits sum.splits prod.splits)
next
  case None
  show ?thesis
  proof (cases "preserve_source_resolution p")
    case True
    let ?cols = "(max_grid_width p - border_thickness p) div (sw + border_thickness p)"
    let ?rows = "(max_grid_height p - border_thickness p) div (sh + label_height p + border_thickness p)"
    have w: "grid_total_width p ?cols sw \<le> max_grid_width p"
      unfolding grid_total_width_def using preserve_fits[of sw "border_thickness p" ?cols] src pad
      by simp
    have h: "grid_total_height p ?rows sh \<le> max_grid_height p"
      unfolding grid_total_height_def
      using preserve_fits[of "sh + label_height p" "border_thickness p" ?rows "max_grid_height p"] src pad
      by (simp add: algebra_simps)
    show ?thesis
      using r None True nolimit w h src pad
      by (auto simp: calculate_grid_dimensions_def good_layout_def constrain_cells_unlimited
          fallback_layout_def floordiv_def layout_fits_def Let_def split: if_splits)
  next
    case False
    from r None False obtain best mf where
      s: "search_grids p ar grid_candidates (None, 0) = Inr (best, mf)"
      by (auto simp: calculate_grid_dimensions_def split: sum.splits prod.splits)
    have gb: "good_best p (best, mf)"
      using search_grids_good[OF s _ grid_candidates_positive] by (simp add: good_best_def)
    show ?thesis
      using r None False s gb nolimit
      by (auto simp: calculate_grid_dimensions_def good_best_def good_layout_def
          constrain_cells_unlimited fallback_layout_def split: option.splits prod.splits)
  qed
qed

lemma ceil_div_le:
  fixes a k m :: int
  assumes "0 < k" "a \<le> k * m"
  shows "(a + k - 1) div k \<le> m"
proof -
  have "(a + k - 1) div k \<le> (k * m + (k - 1)) div k"
    by (rule zdiv_mono1) (use assms in auto)
  also have "\<dots> = m" using assms(1) by simp
  finally show ?thesis .
qed

lemma ceil_div_ge:
  fixes a k :: int
  assumes "0 < k"
  shows "a \<le> ((a + k - 1) div k) * k"
proof -
  have "a + k - 1 = (a + k - 1) div k * k + (a + k - 1) mod k" by simp
  moreover have "(a + k - 1) mod k \<le> k - 1" using assms by simp
  ultimately show ?thesis by linarith
qed

lemma grids_bound:
  fixes total per_grid images :: int
  assumes "0 < per_grid" "0 \<le> images"
    and "(if total \<le> per_grid * images then Inr (1, total)
          else (case floordiv (total + per_grid * images - 1) (per_grid * images) of
                  Inl e \<Rightarrow> Inl e
                | Inr rate \<Rightarrow>
                    (case floordiv (total + rate - 1) rate of
                       Inl e \<Rightarrow> Inl e
                     | Inr extract \<Rightarrow> Inr (rate, extract)))) = Inr (rate, extract)"
  shows "(extract + per_grid - 1) div per_grid \<le> images"
proof (cases "total \<le> per_grid * images")
  case True
  then have "extract = total" using assms(3) by simp
  then show ?thesis using ceil_div_le[OF assms(1)] True by simp
next
  case False
  let ?M = "per_grid * images"
  from False assms(3) have M0: "?M \<noteq> 0"
    and rate: "rate = (total + ?M - 1) div ?M"
    and rate0: "rate \<noteq> 0"
    and ex: "extract = (total + rate - 1) div rate"
    by (auto simp: floordiv_def split: if_splits)
  have Mpos: "0 < ?M" using M0 assms(1,2) by (metis less_le mult_nonneg_nonneg less_imp_le)
  have "total \<le> rate * ?M" using ceil_div_ge[OF Mpos, of total] rate by simp
  moreover have "0 \<le> rate" using rate Mpos False
    by (simp add: pos_imp_zdiv_nonneg_iff)
  then have "0 < rate" using rate0 by simp
  ultimately have "extract \<le> ?M" using ex ceil_div_le[of rate total ?M] by simp
  then show ?thesis using ceil_div_le[OF assms(1)] by simp
qed


text \<open>
  C9 (amended). With no file-size limit, a fixed layout (if any) of at least one row
  and one column, a positive source resolution and non-negative border thickness,
  label height and maximal number of grid images: whenever
  \<open>calculate_optimal_layout\<close> returns a layout, \<open>num_grids_needed\<close> is at most
  \<open>max_grid_images\<close>, and the layout either is the hard-coded fallback (cells of 512 by
  512 in 4 rows and 5 columns) or satisfies the width bound and the height bound.
\<close>

theorem layout_bounds:
  assumes r: "calculate_optimal_layout p video_duration source_fps (sw, sh) = Inr L"
    and nolimit: "max_file_size_mb p = None"
    and fixed: "\<And>r c. fixed_grid_layout p = Some (r, c) \<Longrightarrow> 1 \<le> r \<and> 1 \<le> c"
    and src: "0 < sw" "0 < sh"
    and pad: "0 \<le> border_thickness p" "0 \<le> label_height p"
    and images: "0 \<le> max_grid_images p"
  shows "num_grids_needed L \<le> max_grid_images p \<and>
    ((fst (cell_size L), snd (cell_size L), grid_rows L, grid_cols L) = (512, 512, 4, 5) \<or>
     grid_cols L * fst (cell_size L) + (grid_cols L + 1) * border_thickness p \<le> max_grid_width p \<and>
     grid_rows L * (snd (cell_size L) + label_height p) + (grid_rows L + 1) * border_thickness p
       \<le> max_grid_height p)"
proof -
  let ?total = "py_int (video_duration * source_fps)"
  have aspect: "truediv (real_of_int sw) (real_of_int sh) = Inr (real_of_int sw / real_of_int sh)"
    using src by (simp add: truediv_def)
  from r aspect obtain cw ch rows cols rate extr where
    g: "calculate_grid_dimensions p (real_of_int sw / real_of_int sh) (sw, sh) = Inr (cw, ch, rows, cols)"
    and re: "(if ?total \<le> rows * cols * max_grid_images p then Inr (1, ?total)
          else (case floordiv (?total + rows * cols * max_grid_images p - 1) (rows * cols * max_grid_images p) of
                  Inl e \<Rightarrow> Inl e
                | Inr rate \<Rightarrow>
                    (case floordiv (?total + rate - 1) rate of
                       Inl e \<Rightarrow> Inl e
                     | Inr extr \<Rightarrow> Inr (rate, extr)))) = Inr (rate, extr)"
    and L: "num_grids_needed L = (extr + rows * cols - 1) div (rows * cols)"
      "cell_size L = (cw, ch)" "grid_rows L = rows" "grid_cols L = cols"
    by (auto simp: calculate_optimal_layout_def Let_def floordiv_def
        split: sum.splits prod.splits if_splits)
  have fx: "case fixed_grid_layout p of None \<Rightarrow> True | Some (r, c) \<Rightarrow> 1 \<le> r \<and> 1 \<le> c"
    using fixed by (auto split: option.splits)
  have good: "good_layout p (cw, ch, rows, cols)"
    by (rule calculate_grid_dimensions_good[OF g nolimit fx src pad])
  then have pos: "0 < rows * cols" by (simp add: good_layout_def)
  have "num_grids_needed L \<le> max_grid_images p"
    using grids_bound[OF pos images re] L by simp
  moreover have "(cw, ch, rows, cols) = (512, 512, 4, 5) \<or>
     cols * cw + (cols + 1) * border_thickness p \<le> max_grid_width p \<and>
     rows * (ch + label_height p) + (rows + 1) * border_thickness p \<le> max_grid_height p"
    using good
    by (auto simp: good_layout_def fallback_layout_def layout_fits_def grid_total_width_def
        grid_total_height_def)
  ultimately show ?thesis using L by simp
qed


theorem layout_bounds_witness:
  "calculate_optimal_layout small_grid_processor 10 1 (320, 240) = Inr small_layout
   \<and> num_grids_needed small_layout \<le> max_grid_images small_grid_processor
   \<and> (3::int) * 320 + (3 + 1) * border_thickness small_grid_processor
        \<le> max_grid_width small_grid_processor
   \<and> (3::int) * (240 + label_height small_grid_processor)
        + (3 + 1) * border_thickness small_grid_processor
        \<le> max_grid_height small_grid_processor"
proof -
  have r: "calculate_optimal_layout small_grid_processor 10 1 (320, 240) = Inr small_layout"
    by (simp add: calculate_optimal_layout_def calculate_grid_dimensions_def
        small_grid_processor_def small_layout_def truediv_def floordiv_def fallback_layout_def
        py_int_def Let_def constrain_cells_def)
  show ?thesis
    using r layout_bounds[OF r]
    by (simp add: small_grid_processor_def small_layout_def)
qed

text \<open>
  The claim as written fails: when the source resolution is preserved and one source
  frame does not fit the maximal grid image, the fallback layout is returned, and its
  grid image is 2608 pixels wide against a maximum of 1000.
\<close>

theorem layout_fallback_exceeds_bounds:
  "calculate_optimal_layout small_grid_processor 10 1 (1920, 1080) =
     Inr \<lparr> total_frames = 10, frames_per_grid = 20, grid_rows = 4, grid_cols = 5,
           cell_size = (512, 512), num_grids_needed = 1, sampling_rate = 1,
           frames_to_extract = 10, extraction_interval = 1, max_frames_capacity = 400 \<rparr>
   \<and> \<not> ((5::int) * 512 + (5 + 1) * border_thickness small_grid_processor
          \<le> max_grid_width small_grid_processor)"
  by (simp add: calculate_optimal_layout_def calculate_grid_dimensions_def small_grid_processor_def
      truediv_def floordiv_def fallback_layout_def py_int_def Let_def)

section \<open>Merge of a model response: results\<close>

lemma set_entry_values: "set (entry_values es) = {v. Key v \<in> set es}"
  by (induction es) (auto simp: entry_values_def split: entry.splits)

lemma set_chapter_ids: "set (chapter_ids chs) = {v. \<exists>h \<in> set chs. chapter_id h = Key v}"
proof -
  have "Key v \<in> chapter_id ` set chs \<longleftrightarrow> (\<exists>h \<in> set chs. chapter_id h = Key v)" for v
    by force
  then show ?thesis by (simp add: chapter_ids_def set_entry_values)
qed

lemma set_topic_ids:
  "set (topic_ids chs) =
     {v. \<exists>h \<in> set chs. \<exists>t \<in> set (get_or (topics h) []). topic_id t = Key v}"
proof -
  have "Key v \<in> topic_id ` set (all_topics chs) \<longleftrightarrow>
      (\<exists>h \<in> set chs. \<exists>t \<in> set (get_or (topics h) []). topic_id t = Key v)" for v
    unfolding all_topics_def by force
  then show ?thesis by (simp add: topic_ids_def set_entry_values)
qed

lemma ids_kept_refl: "ids_kept chs chs"
  by (simp add: ids_kept_def)

lemma ids_kept_trans: "ids_kept a b \<Longrightarrow> ids_kept b c \<Longrightarrow> ids_kept a c"
  by (auto simp: ids_kept_def)


lemma ids_kept_Cons:
  assumes k: "ids_kept hs hs'"
    and c: "\<And>v. chapter_id h = Key v \<Longrightarrow> chapter_id h' = Key v"
    and t: "\<And>v t. t \<in> set (get_or (topics h) []) \<Longrightarrow> topic_id t = Key v \<Longrightarrow>
           \<exists>t' \<in> set (get_or (topics h') []). topic_id t' = Key v"
  shows "ids_kept (h # hs) (h' # hs')"
proof -
  have 1: "set (chapter_ids (h # hs)) \<subseteq> set (chapter_ids (h' # hs'))"
  proof
    fix v assume "v \<in> set (chapter_ids (h # hs))"
    then consider "chapter_id h = Key v" | "v \<in> set (chapter_ids hs)"
      unfolding set_chapter_ids by auto
    then show "v \<in> set (chapter_ids (h' # hs'))"
    proof cases
      case 1
      then show ?thesis using c unfolding set_chapter_ids by simp
    next
      case 2
      then have "v \<in> set (chapter_ids hs')" using k by (auto simp: ids_kept_def)
      then show ?thesis unfolding set_chapter_ids by auto
    qed
  qed
  have 2: "set (topic_ids (h # hs)) \<subseteq> set (topic_ids (h' # hs'))"
  proof
    fix v assume "v \<in> set (topic_ids (h # hs))"
    then consider "\<exists>t \<in> set (get_or (topics h) []). topic_id t = Key v" | "v \<in> set (topic_ids hs)"
      unfolding set_topic_ids by auto
    then show "v \<in> set (topic_ids (h' # hs'))"
    proof cases
      case 1
      then show ?thesis using t unfolding set_topic_ids by auto
    next
      case 2
      then have "v \<in> set (topic_ids hs')" using k by (auto simp: ids_kept_def)
      then show ?thesis unfolding set_topic_ids by auto
    qed
  qed
  show ?thesis using k 1 2 by (simp add: ids_kept_def)
qed

lemma index_topics_ids:
  "index_topics h_idx t_idx ts tm = (ts', tm') \<Longrightarrow>
   length ts' = length ts \<and>
   (\<forall>v. (\<exists>t \<in> set ts. topic_id t = Key v) \<longrightarrow> (\<exists>t \<in> set ts'. topic_id t = Key v))"
proof (induction ts arbitrary: t_idx tm ts' tm')
  case Nil
  then show ?case by simp
next
  case (Cons t ts)
  let ?t' = "(case topic_id t of
                  NoKey \<Rightarrow> t\<lparr> topic_id := Key (Some (''t'' @ str_nat (length tm + 1))) \<rparr>
                | Key v \<Rightarrow> t)"
  from Cons.prems obtain ts1 tm1 where
    r: "index_topics h_idx (t_idx + 1) ts (AList.update (get_or (topic_id ?t') None) (h_idx, t_idx) tm) = (ts1, tm1)"
    and c: "ts' = ?t' # ts1"
    by (auto simp: Let_def split: prod.splits)
  have keep: "topic_id t = Key v \<Longrightarrow> topic_id ?t' = Key v" for v by simp
  show ?case
    using Cons.IH[OF r] keep unfolding c by auto
qed


lemma index_chapters_ids:
  "index_chapters h_idx chs tm = (chs', tm') \<Longrightarrow> ids_kept chs chs'"
proof (induction chs arbitrary: h_idx tm chs' tm')
  case Nil
  then show ?case by (simp add: ids_kept_refl)
next
  case (Cons h hs)
  show ?case
  proof (cases "topics h")
    case NoKey
    with Cons.prems obtain hs' where r: "index_chapters (h_idx + 1) hs tm = (hs', tm')"
      and c: "chs' = h # hs'"
      by (auto split: prod.splits)
    show ?thesis unfolding c
      by (rule ids_kept_Cons[OF Cons.IH[OF r]]) auto
  next
    case (Key ts)
    with Cons.prems obtain ts' tm1 hs' where
      t: "index_topics h_idx 0 ts tm = (ts', tm1)"
      and r: "index_chapters (h_idx + 1) hs tm1 = (hs', tm')"
      and c: "chs' = h\<lparr> topics := Key ts' \<rparr> # hs'"
      by (auto simp: Let_def split: prod.splits)
    show ?thesis unfolding c
    proof (rule ids_kept_Cons[OF Cons.IH[OF r]])
      fix v assume "chapter_id h = Key v"
      then show "chapter_id (h\<lparr> topics := Key ts' \<rparr>) = Key v" by simp
    next
      fix v t assume "t \<in> set (get_or (topics h) [])" "topic_id t = Key v"
      then have "\<exists>t \<in> set ts. topic_id t = Key v" using Key by (auto simp: get_or_def)
      then have "\<exists>t \<in> set ts'. topic_id t = Key v" using index_topics_ids[OF t] by blast
      then show "\<exists>t' \<in> set (get_or (topics (h\<lparr> topics := Key ts' \<rparr>)) []). topic_id t' = Key v"
        by (simp add: get_or_def)
    qed
  qed
qed

lemma find_chapter_length:
  "find_chapter i wanted chs = (chs', r) \<Longrightarrow> length chs' = length chs"
proof (induction chs arbitrary: i chs' r)
  case Nil
  then show ?case by simp
next
  case (Cons h hs)
  show ?case
  proof (cases "get_or (chapter_id (case chapter_id h of
                  NoKey \<Rightarrow> h\<lparr> chapter_id := Key (Some (''h'' @ str_nat (i + 1))) \<rparr>
                | Key v \<Rightarrow> h)) None = wanted")
    case True
    then show ?thesis using Cons.prems by (auto simp: Let_def)
  next
    case False
    with Cons.prems obtain hs' where r: "find_chapter (i + 1) wanted hs = (hs', r)"
      and c: "length chs' = Suc (length hs')"
      by (auto simp: Let_def split: prod.splits)
    from Cons.IH[OF r] c show ?thesis by simp
  qed
qed

lemma find_chapter_topics:
  "find_chapter i wanted chs = (chs', r) \<Longrightarrow> map topics chs' = map topics chs"
proof (induction chs arbitrary: i chs' r)
  case Nil
  then show ?case by simp
next
  case (Cons h hs)
  let ?h' = "(case chapter_id h of
                  NoKey \<Rightarrow> h\<lparr> chapter_id := Key (Some (''h'' @ str_nat (i + 1))) \<rparr>
                | Key v \<Rightarrow> h)"
  have t: "topics ?h' = topics h"
    by (simp split: entry.splits)
  show ?case
  proof (cases "get_or (chapter_id ?h') None = wanted")
    case True
    then have "chs' = ?h' # hs" using Cons.prems by (simp add: Let_def)
    then show ?thesis using t by simp
  next
    case False
    with Cons.prems obtain hs' where r: "find_chapter (i + 1) wanted hs = (hs', r)"
      and c: "chs' = ?h' # hs'"
      by (auto simp: Let_def split: prod.splits)
    from Cons.IH[OF r] c t show ?thesis by simp
  qed
qed

lemma find_chapter_index:
  "find_chapter i wanted chs = (chs', Some j) \<Longrightarrow> i \<le> j \<and> j - i < length chs"
proof (induction chs arbitrary: i chs')
  case Nil
  then show ?case by simp
next
  case (Cons h hs)
  show ?case
  proof (cases "get_or (chapter_id (case chapter_id h of
                  NoKey \<Rightarrow> h\<lparr> chapter_id := Key (Some (''h'' @ str_nat (i + 1))) \<rparr>
                | Key v \<Rightarrow> h)) None = wanted")
    case True
    then show ?thesis using Cons.prems by (simp add: Let_def)
  next
    case False
    with Cons.prems obtain hs' where "find_chapter (i + 1) wanted hs = (hs', Some j)"
      by (auto simp: Let_def split: prod.splits)
    from Cons.IH[OF this] show ?thesis by auto
  qed
qed

lemma find_chapter_chapter_ids:
  "find_chapter i wanted chs = (chs', r) \<Longrightarrow>
   set (chapter_ids chs) \<subseteq> set (chapter_ids chs')"
proof (induction chs arbitrary: i chs' r)
  case Nil
  then show ?case by simp
next
  case (Cons h hs)
  let ?h' = "(case chapter_id h of
                  NoKey \<Rightarrow> h\<lparr> chapter_id := Key (Some (''h'' @ str_nat (i + 1))) \<rparr>
                | Key v \<Rightarrow> h)"
  have keep: "chapter_id h = Key v \<Longrightarrow> chapter_id ?h' = Key v" for v by simp
  show ?case
  proof (cases "get_or (chapter_id ?h') None = wanted")
    case True
    then have c: "chs' = ?h' # hs" using Cons.prems by (simp add: Let_def)
    show ?thesis unfolding c set_chapter_ids using keep by auto
  next
    case False
    with Cons.prems obtain hs' where r: "find_chapter (i + 1) wanted hs = (hs', r)"
      and c: "chs' = ?h' # hs'"
      by (auto simp: Let_def split: prod.splits)
    have "set (chapter_ids hs) \<subseteq> set (chapter_ids hs')" by (rule Cons.IH[OF r])
    then show ?thesis unfolding c set_chapter_ids using keep by auto
  qed
qed

lemma find_chapter_kept:
  assumes "find_chapter i wanted chs = (chs', r)"
  shows "ids_kept chs chs'"
proof -
  have "all_topics chs' = all_topics chs"
  proof -
    have "all_topics xs = concat (map (\<lambda>e. get_or e []) (map topics xs))" for xs
      by (simp add: all_topics_def o_def)
    then show ?thesis by (simp only: find_chapter_topics[OF assms])
  qed
  then show ?thesis
    using find_chapter_length[OF assms] find_chapter_chapter_ids[OF assms]
    by (simp add: ids_kept_def topic_ids_def)
qed


lemma ids_kept_update:
  assumes i: "i < length chs"
    and c: "chapter_id x = chapter_id (chs ! i)"
    and t: "\<And>v t. t \<in> set (get_or (topics (chs ! i)) []) \<Longrightarrow> topic_id t = Key v \<Longrightarrow>
           \<exists>t' \<in> set (get_or (topics x) []). topic_id t' = Key v"
  shows "ids_kept chs (chs[i := x])"
proof -
  have "map chapter_id (chs[i := x]) = map chapter_id chs"
    using i c by (simp add: map_update list_update_same_conv)
  then have 1: "chapter_ids (chs[i := x]) = chapter_ids chs"
    by (simp add: chapter_ids_def)
  have 2: "set (topic_ids chs) \<subseteq> set (topic_ids (chs[i := x]))"
  proof
    fix v assume "v \<in> set (topic_ids chs)"
    then obtain h tp where h: "h \<in> set chs" and tp: "tp \<in> set (get_or (topics h) [])"
      and v: "topic_id tp = Key v"
      unfolding set_topic_ids by auto
    from h obtain j where j: "j < length chs" "chs ! j = h" by (auto simp: in_set_conv_nth)
    show "v \<in> set (topic_ids (chs[i := x]))"
    proof (cases "j = i")
      case True
      then obtain t' where "t' \<in> set (get_or (topics x) [])" "topic_id t' = Key v"
        using t tp v j by blast
      moreover have "x \<in> set (chs[i := x])" using i by (rule set_update_memI)
      ultimately show ?thesis unfolding set_topic_ids by blast
    next
      case False
      then have "h \<in> set (chs[i := x])"
        using j by (metis length_list_update nth_list_update_neq nth_mem)
      then show ?thesis using tp v unfolding set_topic_ids by blast
    qed
  qed
  show ?thesis using 1 2 by (simp add: ids_kept_def)
qed

lemma ids_kept_append: "ids_kept chs (chs @ [h])"
  unfolding ids_kept_def set_chapter_ids set_topic_ids by auto

lemma patch_topic_id: "topic_id (patch_topic t a b c d) = topic_id t"
  by (simp add: patch_topic_def Let_def split: entry.splits)

lemma apply_action_kept:
  assumes "apply_action (chs, tm) a = Inr (chs', tm')"
  shows "ids_kept chs chs'"
proof (cases a)
  case (NewChapter new_id title conf)
  then show ?thesis using assms by (auto simp: ids_kept_append)
next
  case (NewTopic new_id wanted summary start_t end_t cs)
  obtain chs1 r where f: "find_chapter 0 wanted chs = (chs1, r)" by force
  have k1: "ids_kept chs chs1" by (rule find_chapter_kept[OF f])
  show ?thesis
  proof (cases r)
    case None
    then show ?thesis using assms NewTopic f k1 by simp
  next
    case (Some idx)
    then have idx: "idx < length chs1"
      using find_chapter_index[of 0 wanted chs chs1 idx] f find_chapter_length[OF f] by simp
    from assms NewTopic f Some obtain ts where ts: "topics (chs1 ! idx) = Key ts"
      and c: "chs' = chs1[idx := (chs1 ! idx)\<lparr> topics := Key (ts @ [\<lparr> topic_id = Key new_id,
                  topic_summary = Key summary, start_time = Key start_t, end_time = Key end_t,
                  chunks = Key cs \<rparr>]) \<rparr>]"
      by (auto simp: Let_def split: entry.splits)
    have "ids_kept chs1 chs'" unfolding c
      by (rule ids_kept_update[OF idx]) (auto simp: ts get_or_def)
    then show ?thesis using k1 ids_kept_trans by blast
  qed
next
  case (UpdateTopic tid summary start_t end_t cs)
  show ?thesis
  proof (cases "map_of tm tid")
    case None
    then show ?thesis using assms UpdateTopic by (simp add: ids_kept_refl)
  next
    case (Some ht)
    obtain h_idx t_idx where ht: "ht = (h_idx, t_idx)" by (cases ht)
    from assms UpdateTopic Some ht obtain ts where h: "h_idx < length chs"
      and ts: "topics (chs ! h_idx) = Key ts" and t: "t_idx < length ts"
      and c: "chs' = chs[h_idx := (chs ! h_idx)
                 \<lparr> topics := Key (ts[t_idx := patch_topic (ts ! t_idx) summary start_t end_t cs]) \<rparr>]"
      by (auto split: if_splits entry.splits)
    have m: "map topic_id (ts[t_idx := patch_topic (ts ! t_idx) summary start_t end_t cs]) = map topic_id ts"
      using t by (simp add: map_update patch_topic_id list_update_same_conv)
    show ?thesis unfolding c
    proof (rule ids_kept_update[OF h])
      show "chapter_id ((chs ! h_idx)\<lparr> topics := Key (ts[t_idx := patch_topic (ts ! t_idx) summary start_t end_t cs]) \<rparr>)
          = chapter_id (chs ! h_idx)" by simp
    next
      fix v tp assume "tp \<in> set (get_or (topics (chs ! h_idx)) [])" "topic_id tp = Key v"
      then have "Key v \<in> set (map topic_id ts)" using ts by (force simp: get_or_def)
      then have "Key v \<in> set (map topic_id (ts[t_idx := patch_topic (ts ! t_idx) summary start_t end_t cs]))"
        by (simp only: m)
      then show "\<exists>t' \<in> set (get_or (topics ((chs ! h_idx)\<lparr> topics := Key (ts[t_idx := patch_topic (ts ! t_idx) summary start_t end_t cs]) \<rparr>)) []).
          topic_id t' = Key v"
        by (force simp: get_or_def)
    qed
  qed
next
  case OtherAction
  then show ?thesis using assms by (simp add: ids_kept_refl)
qed

lemma apply_actions_kept:
  "apply_actions (chs, tm) as = Inr (chs', tm') \<Longrightarrow> ids_kept chs chs'"
proof (induction as arbitrary: chs tm)
  case Nil
  then show ?case by (simp add: ids_kept_refl)
next
  case (Cons a as)
  from Cons.prems obtain chs1 tm1 where
    a: "apply_action (chs, tm) a = Inr (chs1, tm1)"
    and r: "apply_actions (chs1, tm1) as = Inr (chs', tm')"
    by (auto split: sum.splits)
  show ?case
    using apply_action_kept[OF a] Cons.IH[OF r] ids_kept_trans by blast
qed

lemma process_kept:
  assumes "process_incremental_updates results actions c s e tr = Inr r"
  shows "ids_kept (previous_chapters results c) (chapters r)"
proof -
  obtain chs tm where i: "index_chapters 0 (previous_chapters results c) [] = (chs, tm)" by force
  from assms i obtain chs' tm' where a: "apply_actions (chs, tm) actions = Inr (chs', tm')"
    and r: "chapters r = chs'"
    by (auto simp: process_incremental_updates_def split: sum.splits)
  show ?thesis
    using index_chapters_ids[OF i] apply_actions_kept[OF a] r ids_kept_trans by blast
qed

lemma set_alist_update: "set (AList.update k v al) \<subseteq> insert (k, v) (set al)"
  by (induction al) auto

lemma valid_map_update:
  "valid_map chs tm \<Longrightarrow> valid_entry (shape chs) (k, v) \<Longrightarrow> valid_map chs (AList.update k v tm)"
  using set_alist_update[of k v tm] by (auto simp: valid_map_def)

lemma length_shape [simp]: "length (shape chs) = length chs"
  by (simp add: shape_def)

lemma shape_nth:
  "h < length chs \<Longrightarrow>
   shape chs ! h = (case topics (chs ! h) of NoKey \<Rightarrow> None | Key ts \<Rightarrow> Some (length ts))"
  by (simp add: shape_def)

lemma index_topics_entries:
  "index_topics h_idx t_idx ts tm = (ts', tm') \<Longrightarrow>
   length ts' = length ts \<and>
   (\<forall>e \<in> set tm'. e \<in> set tm \<or> (\<exists>k t. e = (k, h_idx, t) \<and> t < t_idx + length ts))"
proof (induction ts arbitrary: t_idx tm ts' tm')
  case Nil
  then show ?case by simp
next
  case (Cons x xs)
  let ?x' = "(case topic_id x of
                  NoKey \<Rightarrow> x\<lparr> topic_id := Key (Some (''t'' @ str_nat (length tm + 1))) \<rparr>
                | Key v \<Rightarrow> x)"
  let ?tm1 = "AList.update (get_or (topic_id ?x') None) (h_idx, t_idx) tm"
  from Cons.prems obtain ts1 where
    r: "index_topics h_idx (t_idx + 1) xs ?tm1 = (ts1, tm')" and c: "ts' = ?x' # ts1"
    by (auto simp: Let_def split: prod.splits)
  have IH: "length ts1 = length xs"
    "\<forall>e \<in> set tm'. e \<in> set ?tm1 \<or> (\<exists>k t. e = (k, h_idx, t) \<and> t < t_idx + 1 + length xs)"
    using Cons.IH[OF r] by auto
  have "e \<in> set tm \<or> (\<exists>k t. e = (k, h_idx, t) \<and> t < t_idx + length (x # xs))"
    if "e \<in> set tm'" for e
  proof -
    from IH(2) that consider "e \<in> set ?tm1" | "\<exists>k t. e = (k, h_idx, t) \<and> t < t_idx + 1 + length xs"
      by blast
    then show ?thesis
    proof cases
      case 1
      then have "e = (get_or (topic_id ?x') None, h_idx, t_idx) \<or> e \<in> set tm"
        using set_alist_update by fastforce
      then show ?thesis by auto
    next
      case 2
      then show ?thesis by auto
    qed
  qed
  then show ?case using IH(1) c by simp
qed

lemma index_chapters_entries:
  "index_chapters h_idx chs tm = (chs', tm') \<Longrightarrow>
   shape chs' = shape chs \<and>
   (\<forall>e \<in> set tm'. e \<in> set tm \<or>
      (\<exists>k h t. e = (k, h, t) \<and> h_idx \<le> h \<and> h - h_idx < length chs \<and>
         (\<exists>n. shape chs ! (h - h_idx) = Some n \<and> t < n)))"
proof (induction chs arbitrary: h_idx tm chs' tm')
  case Nil
  then show ?case by simp
next
  case (Cons x xs)
  show ?case
  proof (cases "topics x")
    case NoKey
    with Cons.prems obtain xs' where r: "index_chapters (h_idx + 1) xs tm = (xs', tm')"
      and c: "chs' = x # xs'"
      by (auto split: prod.splits)
    have IH: "shape xs' = shape xs"
      "\<forall>e \<in> set tm'. e \<in> set tm \<or>
        (\<exists>k h t. e = (k, h, t) \<and> h_idx + 1 \<le> h \<and> h - (h_idx + 1) < length xs \<and>
           (\<exists>n. shape xs ! (h - (h_idx + 1)) = Some n \<and> t < n))"
      using Cons.IH[OF r] by auto
    have "e \<in> set tm \<or>
      (\<exists>k h t. e = (k, h, t) \<and> h_idx \<le> h \<and> h - h_idx < length (x # xs) \<and>
         (\<exists>n. shape (x # xs) ! (h - h_idx) = Some n \<and> t < n))" if "e \<in> set tm'" for e
    proof -
      from IH(2) that consider "e \<in> set tm"
        | k h t n where "e = (k, h, t)" "h_idx + 1 \<le> h" "h - (h_idx + 1) < length xs"
            "shape xs ! (h - (h_idx + 1)) = Some n" "t < n"
        by blast
      then show ?thesis
      proof cases
        case 1
        then show ?thesis by simp
      next
        case 2
        then have "h - h_idx = Suc (h - (h_idx + 1))" by simp
        then have "shape (x # xs) ! (h - h_idx) = Some n" using 2 by (simp add: shape_def)
        then show ?thesis using 2 by auto
      qed
    qed
    then show ?thesis using IH(1) c by (simp add: shape_def)
  next
    case (Key ts)
    with Cons.prems obtain ts' tm1 xs' where
      t: "index_topics h_idx 0 ts tm = (ts', tm1)"
      and r: "index_chapters (h_idx + 1) xs tm1 = (xs', tm')"
      and c: "chs' = x\<lparr> topics := Key ts' \<rparr> # xs'"
      by (auto simp: Let_def split: prod.splits)
    have T: "length ts' = length ts"
      "\<forall>e \<in> set tm1. e \<in> set tm \<or> (\<exists>k t. e = (k, h_idx, t) \<and> t < 0 + length ts)"
      using index_topics_entries[OF t] by auto
    have IH: "shape xs' = shape xs"
      "\<forall>e \<in> set tm'. e \<in> set tm1 \<or>
        (\<exists>k h t. e = (k, h, t) \<and> h_idx + 1 \<le> h \<and> h - (h_idx + 1) < length xs \<and>
           (\<exists>n. shape xs ! (h - (h_idx + 1)) = Some n \<and> t < n))"
      using Cons.IH[OF r] by auto
    have x0: "shape (x # xs) ! 0 = Some (length ts)" using Key by (simp add: shape_def)
    have "e \<in> set tm \<or>
      (\<exists>k h t. e = (k, h, t) \<and> h_idx \<le> h \<and> h - h_idx < length (x # xs) \<and>
         (\<exists>n. shape (x # xs) ! (h - h_idx) = Some n \<and> t < n))" if "e \<in> set tm'" for e
    proof -
      from IH(2) that consider "e \<in> set tm1"
        | k h t n where "e = (k, h, t)" "h_idx + 1 \<le> h" "h - (h_idx + 1) < length xs"
            "shape xs ! (h - (h_idx + 1)) = Some n" "t < n"
        by blast
      then show ?thesis
      proof cases
        case 1
        with T(2) consider "e \<in> set tm" | k t where "e = (k, h_idx, t)" "t < length ts"
          by auto
        then show ?thesis
        proof cases
          case 1
          then show ?thesis by simp
        next
          case 2
          then show ?thesis using x0 by auto
        qed
      next
        case 2
        then have "h - h_idx = Suc (h - (h_idx + 1))" by simp
        then have "shape (x # xs) ! (h - h_idx) = Some n" using 2 by (simp add: shape_def)
        then show ?thesis using 2 by auto
      qed
    qed
    then show ?thesis using IH(1) T(1) c Key by (simp add: shape_def)
  qed
qed

lemma index_chapters_valid:
  assumes "index_chapters 0 chs [] = (chs', tm')"
  shows "valid_map chs' tm' \<and> shape chs' = shape chs"
proof -
  from index_chapters_entries[OF assms]
  have s: "shape chs' = shape chs"
    and e: "\<forall>e \<in> set tm'. \<exists>k h t. e = (k, h, t) \<and> h < length chs \<and>
         (\<exists>n. shape chs ! h = Some n \<and> t < n)"
    by auto
  have "valid_entry (shape chs') e" if "e \<in> set tm'" for e
    using e that s by (fastforce simp: valid_entry_def)
  then show ?thesis using s by (simp add: valid_map_def)
qed

lemma valid_map_grow:
  assumes "valid_map chs tm" "shape_le (shape chs) (shape chs')"
  shows "valid_map chs' tm"
  unfolding valid_map_def
proof
  fix e assume "e \<in> set tm"
  then have v: "valid_entry (shape chs) e" using assms(1) by (simp add: valid_map_def)
  obtain k h t where e: "e = (k, h, t)" by (cases e)
  from v e obtain n where h: "h < length (shape chs)" and n: "shape chs ! h = Some n" "t < n"
    by (auto simp: valid_entry_def)
  from assms(2) h n obtain n' where "shape chs' ! h = Some n'" "n \<le> n'"
    unfolding shape_le_def by blast
  moreover have "h < length (shape chs')" using assms(2) h by (simp add: shape_le_def)
  ultimately show "valid_entry (shape chs') e" using e n by (auto simp: valid_entry_def)
qed

lemma shape_le_refl: "shape_le sh sh"
  by (simp add: shape_le_def)

lemma shape_le_append: "shape_le sh (sh @ ys)"
  by (simp add: shape_le_def nth_append)

lemma shape_le_update:
  assumes "i < length sh" "sh ! i = Some n" "n \<le> n'"
  shows "shape_le sh (sh[i := Some n'])"
  using assms by (auto simp: shape_le_def nth_list_update)

lemma shape_find_chapter:
  assumes "find_chapter i wanted chs = (chs', r)"
  shows "shape chs' = shape chs"
proof -
  have "shape xs = map (\<lambda>e. case e of NoKey \<Rightarrow> None | Key ts \<Rightarrow> Some (length ts)) (map topics xs)"
    for xs by (simp add: shape_def o_def)
  then show ?thesis by (simp only: find_chapter_topics[OF assms])
qed

lemma has_topics_shape: "has_topics chs \<longleftrightarrow> None \<notin> set (shape chs)"
  by (induction chs) (auto simp: has_topics_def shape_def split: entry.splits)

lemma shape_topics:
  "h < length chs \<Longrightarrow> shape chs ! h = Some n \<Longrightarrow> \<exists>ts. topics (chs ! h) = Key ts \<and> length ts = n"
  by (auto simp: shape_nth split: entry.splits)

lemma apply_action_total:
  assumes v: "valid_map chs tm" and ht: "has_topics chs"
  shows "\<exists>chs' tm'. apply_action (chs, tm) a = Inr (chs', tm') \<and> valid_map chs' tm' \<and> has_topics chs'"
proof (cases a)
  case (NewChapter new_id title conf)
  let ?new = "\<lparr> chapter_id = Key new_id, chapter_title = Key title, confidence = conf,
                   topics = Key [] \<rparr>"
  have "shape (chs @ [?new]) = shape chs @ [Some 0]" by (simp add: shape_def)
  then have "valid_map (chs @ [?new]) tm"
    using valid_map_grow[OF v, of "chs @ [?new]"] by (simp add: shape_le_append)
  moreover have "has_topics (chs @ [?new])" using ht by (simp add: has_topics_def)
  ultimately show ?thesis using NewChapter by simp
next
  case (NewTopic new_id wanted summary start_t end_t cs)
  obtain chs1 r where f: "find_chapter 0 wanted chs = (chs1, r)" by force
  have sh: "shape chs1 = shape chs" by (rule shape_find_chapter[OF f])
  have v1: "valid_map chs1 tm" using valid_map_grow[OF v, of chs1] sh by (simp add: shape_le_refl)
  have ht1: "has_topics chs1" using ht sh by (simp add: has_topics_shape)
  show ?thesis
  proof (cases r)
    case None
    then show ?thesis using NewTopic f v1 ht1 by simp
  next
    case (Some idx)
    then have idx: "idx < length chs1"
      using find_chapter_index[of 0 wanted chs chs1 idx] f find_chapter_length[OF f] by simp
    then have "topics (chs1 ! idx) \<noteq> NoKey"
      using ht1 by (simp add: has_topics_def list_all_length)
    then obtain ts where ts: "topics (chs1 ! idx) = Key ts" by (cases "topics (chs1 ! idx)") auto
    let ?new = "\<lparr> topic_id = Key new_id, topic_summary = Key summary,
                  start_time = Key start_t, end_time = Key end_t, chunks = Key cs \<rparr>"
    let ?chs' = "chs1[idx := (chs1 ! idx)\<lparr> topics := Key (ts @ [?new]) \<rparr>]"
    let ?tm' = "AList.update new_id (idx, length ts) tm"
    have r: "apply_action (chs, tm) a = Inr (?chs', ?tm')"
      using NewTopic f Some ts by (simp add: Let_def)
    have sh': "shape ?chs' = (shape chs1)[idx := Some (length ts + 1)]"
      by (simp add: shape_def map_update)
    have old: "shape chs1 ! idx = Some (length ts)" using idx ts by (simp add: shape_nth)
    have "shape_le (shape chs1) (shape ?chs')"
      unfolding sh' by (rule shape_le_update[OF _ old]) (use idx in simp_all)
    then have "valid_map ?chs' tm" by (rule valid_map_grow[OF v1])
    moreover have "valid_entry (shape ?chs') (new_id, idx, length ts)"
      unfolding sh' using idx by (simp add: valid_entry_def)
    ultimately have "valid_map ?chs' ?tm'" by (rule valid_map_update)
    moreover have "has_topics ?chs'"
      unfolding has_topics_shape sh' using ht1 idx
      by (auto simp: has_topics_shape dest!: set_update_subset_insert[THEN subsetD])
    ultimately show ?thesis using r by blast
  qed
next
  case (UpdateTopic tid summary start_t end_t cs)
  show ?thesis
  proof (cases "map_of tm tid")
    case None
    then show ?thesis using UpdateTopic v ht by simp
  next
    case (Some hidx)
    obtain h_idx t_idx where hidx: "hidx = (h_idx, t_idx)" by (cases hidx)
    have "(tid, h_idx, t_idx) \<in> set tm" using Some hidx by (simp add: map_of_SomeD)
    then have "valid_entry (shape chs) (tid, h_idx, t_idx)" using v by (auto simp: valid_map_def)
    then obtain n where h: "h_idx < length chs" and n: "shape chs ! h_idx = Some n" "t_idx < n"
      by (auto simp: valid_entry_def)
    from shape_topics[OF h n(1)] obtain ts where ts: "topics (chs ! h_idx) = Key ts" "length ts = n"
      by blast
    let ?chs' = "chs[h_idx := (chs ! h_idx)
                 \<lparr> topics := Key (ts[t_idx := patch_topic (ts ! t_idx) summary start_t end_t cs]) \<rparr>]"
    have r: "apply_action (chs, tm) a = Inr (?chs', tm)"
      using UpdateTopic Some hidx h ts n by simp
    have "shape ?chs' = (shape chs)[h_idx := Some n]"
      using ts by (simp add: shape_def map_update)
    then have sh': "shape ?chs' = shape chs"
      using n(1) h by (simp add: list_update_same_conv)
    have "valid_map ?chs' tm" using valid_map_grow[OF v, of ?chs'] sh' by (simp add: shape_le_refl)
    moreover have "has_topics ?chs'" using ht sh' by (simp add: has_topics_shape)
    ultimately show ?thesis using r by blast
  qed
next
  case OtherAction
  then show ?thesis using v ht by simp
qed

lemma apply_actions_total:
  "valid_map chs tm \<Longrightarrow> has_topics chs \<Longrightarrow>
   \<exists>chs' tm'. apply_actions (chs, tm) as = Inr (chs', tm') \<and> has_topics chs'"
proof (induction as arbitrary: chs tm)
  case Nil
  then show ?case by simp
next
  case (Cons a as)
  from apply_action_total[OF Cons.prems, of a] obtain chs1 tm1 where
    a: "apply_action (chs, tm) a = Inr (chs1, tm1)" and v: "valid_map chs1 tm1" "has_topics chs1"
    by blast
  from Cons.IH[OF v] show ?case using a by simp
qed

lemma process_total:
  assumes "has_topics (previous_chapters results c)"
  shows "\<exists>r. process_incremental_updates results actions c s e tr = Inr r \<and> has_topics (chapters r)"
proof -
  obtain chs tm where i: "index_chapters 0 (previous_chapters results c) [] = (chs, tm)" by force
  have v: "valid_map chs tm" and sh: "shape chs = shape (previous_chapters results c)"
    using index_chapters_valid[OF i] by auto
  have ht: "has_topics chs" using assms sh by (simp add: has_topics_shape)
  from apply_actions_total[OF v ht, of actions] obtain chs' tm' where
    "apply_actions (chs, tm) actions = Inr (chs', tm')" "has_topics chs'" by blast
  then show ?thesis using i by (simp add: process_incremental_updates_def)
qed

text \<open>
  C1. The merge is append-only. Let the result of the previous chunk be stored. When
  each of its chapters has the key \<open>'topics'\<close>, as every chapter made by \<open>new_chapter\<close>
  has, the merge raises nothing and returns a result. Every result it returns has at
  least as many chapters as the previous one and every chapter id and topic id of it.
  An \<open>update_topic\<close> whose id is not in \<open>topic_map\<close> returns the state unchanged,
  without an exception.
\<close>

theorem merge_append_only:
  assumes "0 < c" "map_of results (c - 1) = Some prev"
  shows "(has_topics (chapters prev) \<longrightarrow>
            (\<exists>r. process_incremental_updates results actions c s e tr = Inr r)) \<and>
         (\<forall>r. process_incremental_updates results actions c s e tr = Inr r \<longrightarrow>
            length (chapters prev) \<le> length (chapters r) \<and>
            set (chapter_ids (chapters prev)) \<subseteq> set (chapter_ids (chapters r)) \<and>
            set (topic_ids (chapters prev)) \<subseteq> set (topic_ids (chapters r))) \<and>
         (\<forall>chs tm tid summary start_t end_t cs. map_of tm tid = None \<longrightarrow>
            apply_action (chs, tm) (UpdateTopic tid summary start_t end_t cs) = Inr (chs, tm))"
proof -
  have p: "previous_chapters results c = chapters prev"
    using assms by (simp add: previous_chapters_def)
  have "\<exists>r. process_incremental_updates results actions c s e tr = Inr r"
    if "has_topics (chapters prev)"
    using process_total[of results c actions s e tr] that p by auto
  moreover have "length (chapters prev) \<le> length (chapters r) \<and>
            set (chapter_ids (chapters prev)) \<subseteq> set (chapter_ids (chapters r)) \<and>
            set (topic_ids (chapters prev)) \<subseteq> set (topic_ids (chapters r))"
    if "process_incremental_updates results actions c s e tr = Inr r" for r
    using process_kept[OF that] p by (simp add: ids_kept_def)
  ultimately show ?thesis by simp
qed

section \<open>Overlap detection: results\<close>












section \<open>Conversation window: results\<close>

lemma role_not_user: "role m \<noteq> User \<longleftrightarrow> role m = Assistant"
  by (cases "role m") auto

lemma role_not_assistant: "role m \<noteq> Assistant \<longleftrightarrow> role m = User"
  by (cases "role m") auto

lemma filter_messages_assistant:
  "role a = Assistant \<Longrightarrow> filter_messages keep (a # rest) = filter_messages keep rest"
  by simp

lemma kept_group_Cons:
  "kept_group keep (m # as) = (role m = User \<and> content m \<noteq> [] \<and> keep_this_pair keep m)"
  by (simp add: kept_group_def)

lemma filter_messages_groups:
  "filter_messages keep msgs = concat (filter (kept_group keep) (message_groups msgs))"
proof (induction msgs rule: message_groups.induct)
  case 1
  then show ?case by simp
next
  case (2 m)
  then show ?case by (simp add: kept_group_Cons)
next
  case (3 m a rest)
  show ?case
  proof (cases "role m = User \<and> role a = Assistant")
    case True
    then have IH: "filter_messages keep rest = concat (filter (kept_group keep) (message_groups rest))"
      using 3 by simp
    show ?thesis
      using True IH by (simp add: kept_group_Cons)
  next
    case False
    then have IH: "filter_messages keep (a # rest) =
        concat (filter (kept_group keep) (message_groups (a # rest)))"
      using 3 by simp
    have g: "message_groups (m # a # rest) = [m] # message_groups (a # rest)"
      using False by simp
    show ?thesis
    proof (cases "role m = User")
      case True
      then have a: "role a \<noteq> Assistant" using False by simp
      have "filter_messages keep (m # a # rest) =
          (if content m \<noteq> [] \<and> keep_this_pair keep m then m # filter_messages keep (a # rest)
           else filter_messages keep (a # rest))"
        using True a by (simp del: filter_messages.simps add: filter_messages.simps(2)[of keep m])
      then show ?thesis
        unfolding g IH using True by (simp add: kept_group_Cons)
    next
      case no: False
      have "filter_messages keep (m # a # rest) = filter_messages keep (a # rest)"
        using no by (simp del: filter_messages.simps add: filter_messages.simps(2)[of keep m])
      then show ?thesis
        unfolding g IH using no by (simp add: kept_group_Cons)
    qed
  qed
qed

lemma message_groups_shape:
  "g \<in> set (message_groups msgs) \<Longrightarrow>
   (\<exists>x. g = [x]) \<or> (\<exists>u a. g = [u, a] \<and> role u = User \<and> role a = Assistant)"
  by (induction msgs rule: message_groups.induct) (auto split: if_splits)

lemma filter_messages_users:
  assumes "m \<in> set (filter_messages keep msgs)" "role m = User"
  shows "content m \<noteq> [] \<and> keep_this_pair keep m"
proof -
  from assms(1) obtain g where g: "g \<in> set (message_groups msgs)" "kept_group keep g" "m \<in> set g"
    unfolding filter_messages_groups by auto
  from message_groups_shape[OF g(1)] show ?thesis
  proof (elim disjE exE conjE)
    fix x assume "g = [x]"
    then show ?thesis using g(2,3) by (simp add: kept_group_Cons)
  next
    fix u a assume "g = [u, a]" "role u = User" "role a = Assistant"
    then show ?thesis using g(2,3) assms(2) by (auto simp: kept_group_Cons)
  qed
qed

lemma chapters_to_keep_last:
  "k + 1 < length all \<Longrightarrow>
   length (chapters_to_keep k all) = k + 1 \<and> suffix (chapters_to_keep k all) all"
  by (simp add: chapters_to_keep_def suffix_drop)

lemma update_finalized_results [simp]:
  "analysis_results (update_finalized_chapters st) = analysis_results st"
  by (simp add: update_finalized_chapters_def cleanup_old_messages_def Let_def split: option.splits)

lemma update_finalized_unbounded:
  "keep_n_chapters st = None \<Longrightarrow> messages (update_finalized_chapters st) = messages st"
  by (simp add: update_finalized_chapters_def cleanup_old_messages_def Let_def)

lemma update_finalized_window:
  assumes "keep_n_chapters st = Some k" "analysis_results st \<noteq> []"
    and "k + 1 < length (chapters (latest_result (analysis_results st)))"
  shows "messages (update_finalized_chapters st) =
     filter_messages
       (chunks_of_chapters (chapters_to_keep k (chapters (latest_result (analysis_results st)))))
       (messages st)"
  using assms
  by (simp add: update_finalized_chapters_def cleanup_old_messages_def Let_def)

text \<open>
  What the cleanup keeps. Without a retention parameter the cleanup, and with it
  \<open>update_finalized_chapters\<close>, leaves the history as it is. With \<open>keep_n_chapters = k\<close>
  and a latest result of more than \<open>k + 1\<close> chapters, the history after
  \<open>update_finalized_chapters\<close> consists of exactly those groups (a user message with the
  assistant message after it) of the old history whose user text contains, as a
  substring, the identifier of a chunk of a topic of the last \<open>k + 1\<close> chapters.
\<close>

lemma context_windowing:
  "(keep_n_chapters st = None \<longrightarrow>
      cleanup_old_messages st chs = st \<and>
      messages (update_finalized_chapters st) = messages st) \<and>
   (keep_n_chapters st = Some k \<and> analysis_results st \<noteq> [] \<and>
    k + 1 < length (chapters (latest_result (analysis_results st))) \<longrightarrow>
      (let all_chapters = chapters (latest_result (analysis_results st));
           last_chapters = chapters_to_keep k all_chapters;
           kept = chunks_of_chapters last_chapters;
           history = messages (update_finalized_chapters st)
       in length last_chapters = k + 1 \<and> suffix last_chapters all_chapters \<and>
          history = concat (filter (kept_group kept) (message_groups (messages st))) \<and>
          (\<forall>m \<in> set history. role m = User \<longrightarrow> content m \<noteq> [] \<and> keep_this_pair kept m)))"
proof (intro conjI impI)
  assume "keep_n_chapters st = None"
  then show "cleanup_old_messages st chs = st"
    by (simp add: cleanup_old_messages_def)
next
  assume "keep_n_chapters st = None"
  then show "messages (update_finalized_chapters st) = messages st"
    by (rule update_finalized_unbounded)
next
  assume a: "keep_n_chapters st = Some k \<and> analysis_results st \<noteq> [] \<and>
    k + 1 < length (chapters (latest_result (analysis_results st)))"
  then have w: "messages (update_finalized_chapters st) =
     filter_messages
       (chunks_of_chapters (chapters_to_keep k (chapters (latest_result (analysis_results st)))))
       (messages st)"
    using update_finalized_window by blast
  show "let all_chapters = chapters (latest_result (analysis_results st));
           last_chapters = chapters_to_keep k all_chapters;
           kept = chunks_of_chapters last_chapters;
           history = messages (update_finalized_chapters st)
       in length last_chapters = k + 1 \<and> suffix last_chapters all_chapters \<and>
          history = concat (filter (kept_group kept) (message_groups (messages st))) \<and>
          (\<forall>m \<in> set history. role m = User \<longrightarrow> content m \<noteq> [] \<and> keep_this_pair kept m)"
    unfolding Let_def w
    using a chapters_to_keep_last[of k "chapters (latest_result (analysis_results st))"]
      filter_messages_groups filter_messages_users
    by blast
qed

section \<open>Parsing and storing: results\<close>

lemma parse_and_store_no_fence:
  "extract_json_block content_text = None \<Longrightarrow>
   parse_and_store loads st c s e tr content_text =
     st\<lparr> logs := logs st @ [ParseFailed c, RawContent content_text] \<rparr>"
  by (simp add: parse_and_store_def)

lemma parse_and_store_bad_json:
  "extract_json_block content_text = Some inner \<Longrightarrow> loads inner = None \<Longrightarrow>
   parse_and_store loads st c s e tr content_text =
     st\<lparr> logs := logs st @ [ParseFailed c, RawContent inner] \<rparr>"
  by (simp add: parse_and_store_def)

lemma parse_and_store_stores:
  assumes "extract_json_block content_text = Some inner"
    and "loads inner = Some (JsonObject actions)"
    and "process_incremental_updates (analysis_results st) actions c s e tr = Inr ar"
    and "detect_overlapping_topics ar c = (lg, None)"
  shows "map_of (analysis_results (parse_and_store loads st c s e tr content_text)) c = Some ar"
  using assms
  by (simp add: parse_and_store_def Let_def update_conv' split: option.splits)

text \<open>
  C3 (amended). A response without a fenced \<open>json\<close> block, and a response whose fenced
  block \<open>json.loads\<close> refuses, changes nothing but the log, which receives the failure
  and the offending text: no result is stored for the chunk. A response whose fenced
  block is a JSON object is merged, and the merged result is stored under the chunk id,
  when the merge and the overlap check raise no exception.
\<close>

theorem parse_failure_skips_merge:
  "(extract_json_block content_text = None \<longrightarrow>
      parse_and_store loads st c s e tr content_text =
        st\<lparr> logs := logs st @ [ParseFailed c, RawContent content_text] \<rparr>) \<and>
   (\<forall>inner. extract_json_block content_text = Some inner \<and> loads inner = None \<longrightarrow>
      parse_and_store loads st c s e tr content_text =
        st\<lparr> logs := logs st @ [ParseFailed c, RawContent inner] \<rparr>) \<and>
   (\<forall>inner actions ar lg.
      extract_json_block content_text = Some inner \<and>
      loads inner = Some (JsonObject actions) \<and>
      process_incremental_updates (analysis_results st) actions c s e tr = Inr ar \<and>
      detect_overlapping_topics ar c = (lg, None) \<longrightarrow>
      map_of (analysis_results (parse_and_store loads st c s e tr content_text)) c = Some ar)"
proof (intro conjI allI impI)
  assume "extract_json_block content_text = None"
  then show "parse_and_store loads st c s e tr content_text =
      st\<lparr> logs := logs st @ [ParseFailed c, RawContent content_text] \<rparr>"
    by (rule parse_and_store_no_fence)
next
  fix inner
  assume "extract_json_block content_text = Some inner \<and> loads inner = None"
  then show "parse_and_store loads st c s e tr content_text =
      st\<lparr> logs := logs st @ [ParseFailed c, RawContent inner] \<rparr>"
    by (simp add: parse_and_store_bad_json)
next
  fix inner actions ar lg
  assume "extract_json_block content_text = Some inner \<and>
      loads inner = Some (JsonObject actions) \<and>
      process_incremental_updates (analysis_results st) actions c s e tr = Inr ar \<and>
      detect_overlapping_topics ar c = (lg, None)"
  then show "map_of (analysis_results (parse_and_store loads st c s e tr content_text)) c = Some ar"
    by (simp add: parse_and_store_stores[where loads = loads and inner = inner and actions = actions
          and lg = lg])
qed

theorem parse_failure_skips_merge_witness:
  "parse_and_store example_loads analyzer_two 3 60 80 ''words'' ''I cannot answer'' =
     analyzer_two\<lparr> logs := [ParseFailed 3, RawContent ''I cannot answer''] \<rparr>
   \<and> parse_and_store example_loads analyzer_two 3 60 80 ''words'' (fenced ''{oops'') =
     analyzer_two\<lparr> logs := [ParseFailed 3, RawContent ''{oops''] \<rparr>
   \<and> map_of (analysis_results
        (parse_and_store example_loads analyzer_two 3 60 80 ''words'' (fenced response_json))) 3
     = Some result_three"
proof -
  have 1: "extract_json_block ''I cannot answer'' = None" by code_simp
  have 2: "extract_json_block (fenced ''{oops'') = Some ''{oops''" by code_simp
  have 3: "example_loads ''{oops'' = None" by code_simp
  have 4: "extract_json_block (fenced response_json) = Some response_json" by code_simp
  have 5: "example_loads response_json = Some (JsonObject response_actions)"
    by (simp add: example_loads_def)
  have 6: "process_incremental_updates (analysis_results analyzer_two) response_actions 3 60 80
      ''words'' = Inr result_three" by code_simp
  have 7: "detect_overlapping_topics result_three 3 = ([NoOverlaps 3], None)" by code_simp
  have 8: "logs analyzer_two = []" by (simp add: analyzer_two_def)
  show ?thesis
    using parse_failure_skips_merge[of "''I cannot answer''" example_loads analyzer_two 3 60 80 "''words''"]
      parse_failure_skips_merge[of "fenced ''{oops''" example_loads analyzer_two 3 60 80 "''words''"]
      parse_failure_skips_merge[of "fenced response_json" example_loads analyzer_two 3 60 80 "''words''"]
      1 2 3 4 5 6 7 8
    by simp
qed

text \<open>
  The claim as written fails: a response that is the valid JSON object itself, without
  a fence, is treated as a parse failure and is not merged.
\<close>

theorem unfenced_json_is_not_merged:
  "example_loads response_json = Some (JsonObject response_actions)
   \<and> parse_and_store example_loads analyzer_two 3 60 80 ''words'' response_json =
       analyzer_two\<lparr> logs := [ParseFailed 3, RawContent response_json] \<rparr>
   \<and> map_of (analysis_results
         (parse_and_store example_loads analyzer_two 3 60 80 ''words'' response_json)) 3 = None"
  by code_simp



text \<open>
  C4. For a chunk id \<open>c > 0\<close> whose predecessor has no stored result, the merge starts
  from the empty chapter list: its result is the one it would give on an empty store,
  and with no actions the result has no chapter, whatever earlier results are stored.
\<close>

theorem missing_previous_result_restarts:
  assumes "0 < c" "map_of results (c - 1) = None"
  shows "previous_chapters results c = [] \<and>
     process_incremental_updates results actions c s e tr =
       process_incremental_updates [] actions c s e tr \<and>
     process_incremental_updates results [] c s e tr =
       Inr \<lparr> chapters = [], result_chunk_id = c, time_range = (s, e), transcript = tr \<rparr>"
  using assms
  by (simp add: process_incremental_updates_def previous_chapters_def)

theorem missing_previous_result_restarts_witness:
  "(0::int) < 4 \<and> map_of [(2::int, result_two)] (4 - 1) = None
   \<and> process_incremental_updates [(2, result_two)] [] 4 80 100 ''words'' =
       Inr \<lparr> chapters = [], result_chunk_id = 4, time_range = (80, 100), transcript = ''words'' \<rparr>
   \<and> process_incremental_updates [(2, result_two)]
         [UpdateTopic (Some ''t2'') NoKey NoKey (Key (Some 100)) NoKey] 4 80 100 ''words'' =
       process_incremental_updates []
         [UpdateTopic (Some ''t2'') NoKey NoKey (Key (Some 100)) NoKey] 4 80 100 ''words''"
proof -
  have 1: "(0::int) < 4" by simp
  have 2: "map_of [(2::int, result_two)] (4 - 1) = None" by simp
  show ?thesis
    using missing_previous_result_restarts[OF 1 2, of "[UpdateTopic (Some ''t2'') NoKey NoKey (Key (Some 100)) NoKey]" 80 100 "''words''"]
      missing_previous_result_restarts[OF 1 2, of "[]" 80 100 "''words''"]
    by simp
qed

theorem merge_append_only_witness:
  "(0::int) < 3 \<and> map_of [(2::int, result_two)] (3 - 1) = Some result_two
   \<and> has_topics (chapters result_two)
   \<and> process_incremental_updates [(2, result_two)] response_actions 3 60 80 ''words''
       = Inr result_three
   \<and> length (chapters result_two) \<le> length (chapters result_three)
   \<and> set (chapter_ids (chapters result_two)) \<subseteq> set (chapter_ids (chapters result_three))
   \<and> set (topic_ids (chapters result_two)) \<subseteq> set (topic_ids (chapters result_three))
   \<and> apply_action ([chapter_h1], [(Some ''t1'', (0, 0))])
         (UpdateTopic (Some ''t9'') (Key (Some ''Lost'')) NoKey (Key (Some 90)) NoKey)
       = Inr ([chapter_h1], [(Some ''t1'', (0, 0))])"
proof -
  have 1: "(0::int) < 3" by simp
  have 2: "map_of [(2::int, result_two)] (3 - 1) = Some result_two" by simp
  have 3: "process_incremental_updates [(2, result_two)] response_actions 3 60 80 ''words''
       = Inr result_three" by code_simp
  have 4: "map_of [(Some ''t1'', (0::nat, 0::nat))] (Some ''t9'') = None" by simp
  have 5: "has_topics (chapters result_two)" by code_simp
  show ?thesis
    using merge_append_only[OF 1 2, of response_actions 60 80 "''words''"] 1 2 3 4 5 by blast
qed

lemma context_windowing_sample:
  "messages (update_finalized_chapters (analyzer_three\<lparr> keep_n_chapters := None \<rparr>)) = history_four
   \<and> messages (update_finalized_chapters analyzer_three) =
       concat (filter (kept_group [2, 3]) (message_groups history_four))
   \<and> messages (update_finalized_chapters analyzer_three) =
       [user_message 2, assistant_message, user_message 3, assistant_message]"
proof -
  have 1: "keep_n_chapters (analyzer_three\<lparr> keep_n_chapters := None \<rparr>) = None" by simp
  have 2: "keep_n_chapters analyzer_three = Some 1 \<and> analysis_results analyzer_three \<noteq> [] \<and>
    1 + 1 < length (chapters (latest_result (analysis_results analyzer_three)))" by code_simp
  have 3: "chunks_of_chapters (chapters_to_keep 1
      (chapters (latest_result (analysis_results analyzer_three)))) = [2, 3]" by code_simp
  have 4: "messages (analyzer_three\<lparr> keep_n_chapters := None \<rparr>) = history_four"
    "messages analyzer_three = history_four"
    by (simp_all add: analyzer_three_def)
  have 5: "concat (filter (kept_group [2, 3]) (message_groups history_four)) =
       [user_message 2, assistant_message, user_message 3, assistant_message]" by code_simp
  show ?thesis
    using context_windowing[of "analyzer_three\<lparr> keep_n_chapters := None \<rparr>" "[]" 1]
      context_windowing[of analyzer_three "[]" 1] 1 2 3 4 5
    by (simp add: Let_def)
qed

section \<open>Overlap detection: a topic without start time\<close>


section \<open>Conversation window: two runs that are not pruned\<close>

lemma digit_chars: "digit_char 0 = CHR ''0''" "digit_char (Suc 0) = CHR ''1''"
  by code_simp+

lemma chunk_identifier_10000: "chunk_identifier 10000 = ''chunk_10000''"
  by (simp add: chunk_identifier_def fmt_04d_def zero_pad_def digit_chars)

lemma chunk_identifier_1000: "chunk_identifier 1000 = ''chunk_1000''"
  by (simp add: chunk_identifier_def fmt_04d_def zero_pad_def digit_chars)

lemma collision_substring:
  "sublist ''chunk_1000'' ''Chunk identifier: chunk_10000. Time range''"
  "sublist ''chunk_1000'' ''Chunk identifier: chunk_1000. Time range''"
  by code_simp+

lemma collision_kept:
  "keep_this_pair [1000] (user_message 10000)" "keep_this_pair [1000] (user_message 1000)"
  using collision_substring
  by (simp_all add: keep_this_pair_def user_message_def chunk_identifier_10000
      chunk_identifier_1000)

lemma collision_filter:
  "filter_messages [1000]
     [user_message 10000, assistant_message, user_message 1000, assistant_message] =
     [user_message 10000, assistant_message, user_message 1000, assistant_message]"
proof -
  have r: "role (user_message c) = User" "content (user_message c) \<noteq> []"
    "role assistant_message = Assistant" for c
    by (simp_all add: user_message_def assistant_message_def)
  show ?thesis using collision_kept r by simp
qed

lemma collision_window:
  "chunks_of_chapters (chapters_to_keep 0 [chapter_early, chapter_late]) = [1000]"
  by (simp add: chunks_of_chapters_def chapters_to_keep_def chapter_late_def get_or_def)

lemma collision_update:
  "messages (update_finalized_chapters analyzer_collision)
     = [user_message 10000, assistant_message, user_message 1000, assistant_message]"
  using collision_filter collision_window
  by (simp add: update_finalized_chapters_def cleanup_old_messages_def analyzer_collision_def
      latest_result_def Let_def)

text \<open>
  C2. The claim says that with \<open>keep_n_chapters = k\<close> and more than \<open>k + 1\<close> chapters the
  history holds only the message pairs of chunks of the last \<open>k + 1\<close> chapters. Two runs
  of the code do otherwise. In the first, \<open>k = 0\<close> and the last chapter lists chunk 1000
  only; the pair of chunk 10000 stays, because \<open>chunk_1000\<close> is a substring of
  \<open>chunk_10000\<close>. In the second, \<open>k = 1\<close> and the merged result has three chapters, the
  last two listing chunk 2 only; the new topic has an empty chunk list, on which
  \<open>_print_analysis_result\<close> raises \<open>IndexError\<close>, so \<open>update_finalized_chapters\<close> is not
  called and the pairs of chunks 0, 1 and 3 stay.
\<close>

theorem window_keeps_unrelated_messages:
  "keep_n_chapters analyzer_collision = Some 0
   \<and> chapters (latest_result (analysis_results analyzer_collision))
     = [chapter_early, chapter_late]
   \<and> chunks_of_chapters (chapters_to_keep 0 [chapter_early, chapter_late]) = [1000]
   \<and> messages (update_finalized_chapters analyzer_collision)
     = [user_message 10000, assistant_message, user_message 1000, assistant_message]
   \<and> keep_n_chapters analyzer_two = Some 1
   \<and> map_of (analysis_results
         (parse_and_store malformed_loads analyzer_two 3 60 80 ''words'' (fenced no_chunks_json))) 3
     = Some no_chunks_result
   \<and> length (chapters no_chunks_result) = 3
   \<and> chunks_of_chapters (chapters_to_keep 1 (chapters no_chunks_result)) = [2]
   \<and> messages
        (parse_and_store malformed_loads analyzer_two 3 60 80 ''words'' (fenced no_chunks_json))
     = history_four
   \<and> logs
        (parse_and_store malformed_loads analyzer_two 3 60 80 ''words'' (fenced no_chunks_json))
     = [NoOverlaps 3, FusionError 3 IndexError]"
proof -
  have 1: "keep_n_chapters analyzer_collision = Some 0"
    "chapters (latest_result (analysis_results analyzer_collision)) = [chapter_early, chapter_late]"
    by (simp_all add: analyzer_collision_def latest_result_def)
  have 2: "keep_n_chapters analyzer_two = Some 1" "length (chapters no_chunks_result) = 3"
    by (simp_all add: analyzer_two_def no_chunks_result_def)
  have 3: "map_of (analysis_results
         (parse_and_store malformed_loads analyzer_two 3 60 80 ''words'' (fenced no_chunks_json))) 3
     = Some no_chunks_result" by code_simp
  have 4: "chunks_of_chapters (chapters_to_keep 1 (chapters no_chunks_result)) = [2]"
    by code_simp
  have 5: "messages
        (parse_and_store malformed_loads analyzer_two 3 60 80 ''words'' (fenced no_chunks_json))
     = history_four" by code_simp
  have 6: "logs
        (parse_and_store malformed_loads analyzer_two 3 60 80 ''words'' (fenced no_chunks_json))
     = [NoOverlaps 3, FusionError 3 IndexError]" by code_simp
  show ?thesis
    using 1 2 3 4 5 6 collision_window collision_update by simp
qed

end
